theory Spec2Isabelle
  imports Main "HOL-Library.Multiset" "HOL-Library.AList"
begin

section \<open>Machine integers and panics\<close>

text \<open>
  Go's \<open>int64\<close> (and \<open>int\<close> on a 64-bit platform) is modelled as \<open>int\<close> with the
  two's-complement wrap-around written out; \<open>uint64\<close> as \<open>int\<close> reduced modulo \<open>2^64\<close>.
  Loop counters that are compared against an \<open>int64\<close> bound before being incremented
  cannot overflow and are incremented with plain \<open>+ 1\<close>.
\<close>

definition wrap64 :: "int \<Rightarrow> int" where
  "wrap64 x = (x + 2 ^ 63) mod 2 ^ 64 - 2 ^ 63"

definition is_int64 :: "int \<Rightarrow> bool" where
  "is_int64 x \<longleftrightarrow> - (2 ^ 63) \<le> x \<and> x < 2 ^ 63"

definition is_uint64 :: "int \<Rightarrow> bool" where
  "is_uint64 x \<longleftrightarrow> 0 \<le> x \<and> x < 2 ^ 64"

definition add64 :: "int \<Rightarrow> int \<Rightarrow> int" where
  "add64 a b = wrap64 (a + b)"

definition sub64 :: "int \<Rightarrow> int \<Rightarrow> int" where
  "sub64 a b = wrap64 (a - b)"

definition mul64 :: "int \<Rightarrow> int \<Rightarrow> int" where
  "mul64 a b = wrap64 (a * b)"

text \<open>The conversions \<open>int64(u)\<close> of a \<open>uint64\<close> and \<open>uint64(i)\<close> of an \<open>int64\<close>.\<close>

definition to_int64 :: "int \<Rightarrow> int" where
  "to_int64 u = wrap64 u"

definition to_uint64 :: "int \<Rightarrow> int" where
  "to_uint64 i = i mod 2 ^ 64"

text \<open>
  Run-time panics of the Go runtime and of \<open>math/rand\<close>, as values. Fatal out-of-memory
  errors of the allocator are outside the model.
\<close>

datatype panic =
    InvalidArgument string
  | MakeSliceLenOutOfRange
  | IndexOutOfRange
  | SliceBoundsOutOfRange

definition index_at :: "'a list \<Rightarrow> int \<Rightarrow> panic + 'a" where
  "index_at xs i =
     (if 0 \<le> i \<and> i < int (length xs) then Inr (xs ! nat i) else Inl IndexOutOfRange)"

section \<open>The pseudo-random source\<close>

text \<open>
  \<open>math/rand\<close> belongs to the Go standard library, not to the repository. The generator
  state is modelled as the infinite stream of raw draws still to come; each bounded draw
  consumes one raw value and reduces it into the half-open interval \<open>[0, n)\<close> that the
  library documents, and panics for \<open>n \<le> 0\<close> as the library does. Quantifying over all
  streams covers every sequence of results the library can return.
\<close>

type_synonym rand = "nat \<Rightarrow> nat"

definition advance :: "rand \<Rightarrow> rand" where
  "advance r = (\<lambda>k. r (Suc k))"

definition Int63n :: "int \<Rightarrow> rand \<Rightarrow> panic + (int \<times> rand)" where
  "Int63n n r =
     (if n \<le> 0 then Inl (InvalidArgument ''invalid argument to Int63n'')
      else Inr (int (r 0) mod n, advance r))"

definition Intn :: "int \<Rightarrow> rand \<Rightarrow> panic + (int \<times> rand)" where
  "Intn n r =
     (if n \<le> 0 then Inl (InvalidArgument ''invalid argument to Intn'')
      else Inr (int (r 0) mod n, advance r))"

text \<open>
  \<open>make(T, n)\<close> goes through the runtime's \<open>makeslice\<close>, which panics when the length is
  negative, when length times element size overflows the 64-bit word, or when that
  product exceeds the runtime's constant \<open>maxAlloc\<close>. The constant depends on the platform
  and the Go release (\<open>2^48\<close> bytes on current 64-bit platforms) and is a parameter of the
  model. All element types allocated here (\<open>int\<close>, \<open>int64\<close>, pointers) have size 8.
\<close>

definition makeslice_ok :: "int \<Rightarrow> int \<Rightarrow> int \<Rightarrow> bool" where
  "makeslice_ok maxAlloc elemsize n \<longleftrightarrow>
     0 \<le> n \<and> n * elemsize < 2 ^ 64 \<and> n * elemsize \<le> maxAlloc"

definition make_slice :: "int \<Rightarrow> int \<Rightarrow> int \<Rightarrow> 'a \<Rightarrow> panic + 'a list" where
  "make_slice maxAlloc elemsize n z =
     (if makeslice_ok maxAlloc elemsize n then Inr (replicate (nat n) z)
      else Inl MakeSliceLenOutOfRange)"

definition maxAlloc64 :: int where
  "maxAlloc64 = 2 ^ 48"

text \<open>
  \<open>Perm(n)\<close> of the library: \<open>m := make([]int, n)\<close>, then for \<open>i\<close> from \<open>0\<close> to \<open>n - 1\<close>:
  \<open>j := r.Intn(i + 1); m[i] = m[j]; m[j] = i\<close>.
\<close>

function perm_loop :: "nat \<Rightarrow> nat \<Rightarrow> int list \<Rightarrow> rand \<Rightarrow> int list \<times> rand" where
  "perm_loop i n m r =
     (if i < n then
        (let j = r 0 mod (i + 1);
             m1 = m[i := m ! j];
             m2 = m1[j := int i]
         in perm_loop (i + 1) n m2 (advance r))
      else (m, r))"
  by pat_completeness auto
termination
  by (relation "measure (\<lambda>(i, n, m, r). n - i)") auto

declare perm_loop.simps [simp del]

definition Perm :: "int \<Rightarrow> int \<Rightarrow> rand \<Rightarrow> panic + (int list \<times> rand)" where
  "Perm maxAlloc n r =
     (case make_slice maxAlloc 8 n 0 of
        Inl p \<Rightarrow> Inl p
      | Inr m \<Rightarrow> Inr (perm_loop 0 (nat n) m r))"

section \<open>The import dataset generator (bench/import.go)\<close>

text \<open>
  The state of \<open>GenerateImportCSV\<close>'s outer loop: the running count \<open>numrows\<close>, the
  scratch buffer \<open>profileIDs\<close>, the generator \<open>rng\<close>, and the writer \<open>w\<close> as the list of
  rows handed to \<open>Fprintf\<close> so far (one \<open>(bitmapID, profileID)\<close> pair per call).
  \<open>visited\<close> records the \<open>bitmapID\<close> of every loop iteration, in order.
\<close>

record gen_state =
  numrows :: int
  profileIDs :: "int list"
  rng :: rand
  w :: "(int \<times> int) list"
  visited :: "int list"

text \<open>
  The first inner loop:
  \<open>for j := int64(0); j < numBitsToSet; j++ { profileIDs[j] = rng.Int63n(maxProfileID-baseProfileID) + baseProfileID }\<close>.
\<close>

function draw_profileIDs ::
  "int \<Rightarrow> int \<Rightarrow> int \<Rightarrow> int \<Rightarrow> int list \<Rightarrow> rand \<Rightarrow> panic + (int list \<times> rand)" where
  "draw_profileIDs j numBitsToSet baseProfileID maxProfileID buf r =
     (if j < numBitsToSet then
        (case Int63n (sub64 maxProfileID baseProfileID) r of
           Inl p \<Rightarrow> Inl p
         | Inr (v, r') \<Rightarrow>
             if 0 \<le> j \<and> j < int (length buf)
             then draw_profileIDs (j + 1) numBitsToSet baseProfileID maxProfileID
                    (buf[nat j := add64 v baseProfileID]) r'
             else Inl IndexOutOfRange)
      else Inr (buf, r))"
  by pat_completeness auto
termination
  by (relation "measure (\<lambda>(j, numBitsToSet, b, m, buf, r). nat (numBitsToSet - j))") auto

declare draw_profileIDs.simps [simp del]

text \<open>
  The second inner loop:
  \<open>for j := int64(0); j < numBitsToSet; j++ { fmt.Fprintf(w, "%d,%d\n", bitmapID, profIDs[j]) }\<close>.
\<close>

function emit_rows ::
  "int \<Rightarrow> int \<Rightarrow> int \<Rightarrow> int list \<Rightarrow> (int \<times> int) list \<Rightarrow> panic + (int \<times> int) list" where
  "emit_rows j numBitsToSet bitmapID profIDs out =
     (if j < numBitsToSet then
        (case index_at profIDs j of
           Inl p \<Rightarrow> Inl p
         | Inr v \<Rightarrow> emit_rows (j + 1) numBitsToSet bitmapID profIDs (out @ [(bitmapID, v)]))
      else Inr out)"
  by pat_completeness auto
termination
  by (relation "measure (\<lambda>(j, numBitsToSet, b, ps, out). nat (numBitsToSet - j))") auto

declare emit_rows.simps [simp del]

text \<open>
  The re-slicing \<open>profileIDs[:numBitsToSet]\<close> panics outside \<open>0 .. cap\<close>.
\<close>

definition slice_to :: "int list \<Rightarrow> int \<Rightarrow> panic + int list" where
  "slice_to buf n =
     (if 0 \<le> n \<and> n \<le> int (length buf) then Inr (take (nat n) buf)
      else Inl SliceBoundsOutOfRange)"

text \<open>
  The body of the outer loop for the counter value \<open>i\<close>.
  \<open>sort.Sort(profIDs)\<close> sorts the slice in place with \<open>Less = (<)\<close> on \<open>int64\<close>; the slice
  aliases the front of the scratch buffer, so the buffer's front is replaced by the
  sorted values.
\<close>

definition gen_body ::
  "int \<Rightarrow> int \<Rightarrow> int \<Rightarrow> int \<Rightarrow> int \<Rightarrow> int \<Rightarrow> bool \<Rightarrow> int list \<Rightarrow> gen_state
     \<Rightarrow> panic + gen_state" where
  "gen_body i baseBitmapID baseProfileID maxProfileID minBitsPerMap maxBitsPerMap
       randomOrder bitmapIDs s =
     (case (if randomOrder then index_at bitmapIDs (sub64 i baseBitmapID) else Inr i) of
        Inl p \<Rightarrow> Inl p
      | Inr bitmapID \<Rightarrow>
     (case Int63n (sub64 maxBitsPerMap minBitsPerMap) (rng s) of
        Inl p \<Rightarrow> Inl p
      | Inr (v, r1) \<Rightarrow>
     (case draw_profileIDs 0 (add64 v minBitsPerMap) baseProfileID maxProfileID
             (profileIDs s) r1 of
        Inl p \<Rightarrow> Inl p
      | Inr (buf, r2) \<Rightarrow>
     (case slice_to buf (add64 v minBitsPerMap) of
        Inl p \<Rightarrow> Inl p
      | Inr drawn \<Rightarrow>
     (case emit_rows 0 (add64 v minBitsPerMap) bitmapID
             (if randomOrder then drawn else sort drawn) (w s) of
        Inl p \<Rightarrow> Inl p
      | Inr out \<Rightarrow>
          Inr \<lparr> numrows = add64 (numrows s) (add64 v minBitsPerMap),
                profileIDs = (if randomOrder then drawn else sort drawn)
                               @ drop (length drawn) buf,
                rng = r2,
                w = out,
                visited = visited s @ [bitmapID] \<rparr>)))))"

text \<open>The outer loop \<open>for i := baseBitmapID; i < maxBitmapID; i++\<close>.\<close>

function gen_loop ::
  "int \<Rightarrow> int \<Rightarrow> int \<Rightarrow> int \<Rightarrow> int \<Rightarrow> int \<Rightarrow> int \<Rightarrow> bool \<Rightarrow> int list \<Rightarrow> gen_state
     \<Rightarrow> panic + gen_state" where
  "gen_loop i baseBitmapID maxBitmapID baseProfileID maxProfileID minBitsPerMap maxBitsPerMap
       randomOrder bitmapIDs s =
     (if i < maxBitmapID then
        (case gen_body i baseBitmapID baseProfileID maxProfileID minBitsPerMap maxBitsPerMap
                randomOrder bitmapIDs s of
           Inl p \<Rightarrow> Inl p
         | Inr s' \<Rightarrow>
             gen_loop (i + 1) baseBitmapID maxBitmapID baseProfileID maxProfileID
               minBitsPerMap maxBitsPerMap randomOrder bitmapIDs s')
      else Inr s)"
  by pat_completeness auto
termination
  by (relation "measure (\<lambda>(i, b, maxBitmapID, rest). nat (maxBitmapID - i))") auto

declare gen_loop.simps [simp del]

text \<open>
  \<open>GenerateImportCSV\<close> up to its loop. \<open>NewSource\<close> stands for \<open>rand.New(rand.NewSource(seed))\<close>:
  the stream a seed determines.
\<close>

definition generate ::
  "int \<Rightarrow> (int \<Rightarrow> rand) \<Rightarrow> int \<Rightarrow> int \<Rightarrow> int \<Rightarrow> int \<Rightarrow> int \<Rightarrow> int \<Rightarrow> int \<Rightarrow> bool \<Rightarrow> panic + gen_state" where
  "generate maxAlloc NewSource baseBitmapID maxBitmapID baseProfileID maxProfileID minBitsPerMap
       maxBitsPerMap seed randomOrder =
     (case (if randomOrder then Perm maxAlloc (sub64 maxBitmapID baseBitmapID) (NewSource seed)
            else Inr ([], NewSource seed)) of
        Inl p \<Rightarrow> Inl p
      | Inr (bitmapIDs, r0) \<Rightarrow>
     (case make_slice maxAlloc 8 maxBitsPerMap 0 of
        Inl p \<Rightarrow> Inl p
      | Inr buf0 \<Rightarrow>
          gen_loop baseBitmapID baseBitmapID maxBitmapID baseProfileID maxProfileID
            minBitsPerMap maxBitsPerMap randomOrder bitmapIDs
            \<lparr> numrows = 0, profileIDs = buf0, rng = r0, w = [], visited = [] \<rparr>))"

text \<open>
  The verb \<open>%d\<close> of \<open>fmt\<close> on an integer: an optional minus sign and the decimal digits.
  A row is written as \<open>"%d,%d\n"\<close>.
\<close>

definition digit_char :: "nat \<Rightarrow> char" where
  "digit_char d = ''0123456789'' ! d"

fun dec_nat :: "nat \<Rightarrow> string" where
  "dec_nat n = (if n < 10 then [digit_char n] else dec_nat (n div 10) @ [digit_char (n mod 10)])"

declare dec_nat.simps [simp del]

definition fmt_d :: "int \<Rightarrow> string" where
  "fmt_d x = (if x < 0 then CHR ''-'' # dec_nat (nat (- x)) else dec_nat (nat x))"

definition fmt_row :: "int \<times> int \<Rightarrow> string" where
  "fmt_row row = fmt_d (fst row) @ '','' @ fmt_d (snd row) @ [CHR 0x0A]"

text \<open>
  \<open>GenerateImportCSV\<close>: the returned count and the bytes the writer has received.
\<close>

definition GenerateImportCSV ::
  "int \<Rightarrow> (int \<Rightarrow> rand) \<Rightarrow> int \<Rightarrow> int \<Rightarrow> int \<Rightarrow> int \<Rightarrow> int \<Rightarrow> int \<Rightarrow> int \<Rightarrow> bool \<Rightarrow> panic + (int \<times> string)" where
  "GenerateImportCSV maxAlloc NewSource baseBitmapID maxBitmapID baseProfileID maxProfileID
       minBitsPerMap maxBitsPerMap seed randomOrder =
     (case generate maxAlloc NewSource baseBitmapID maxBitmapID baseProfileID maxProfileID
             minBitsPerMap maxBitsPerMap seed randomOrder of
        Inl p \<Rightarrow> Inl p
      | Inr s \<Rightarrow> Inr (numrows s, concat (map fmt_row (w s))))"

text \<open>Concrete generators for evaluating the model: a constant stream, whatever the seed.\<close>

definition const_rand :: "nat \<Rightarrow> rand" where
  "const_rand c = (\<lambda>k. c)"

definition fixed_source :: "rand \<Rightarrow> int \<Rightarrow> rand" where
  "fixed_source r seed = r"

definition affine_rand :: "nat \<Rightarrow> nat \<Rightarrow> rand" where
  "affine_rand a c = (\<lambda>k. a * k + c)"

definition seeded_source :: "int \<Rightarrow> rand" where
  "seeded_source seed = affine_rand 3 (nat \<bar>seed\<bar>)"

text \<open>
  Observations on the generator's output: the profile ids written for one bitmap id, in
  emission order, and the number of newline-terminated lines in the bytes written.
\<close>

definition group_of :: "int \<Rightarrow> (int \<times> int) list \<Rightarrow> int list" where
  "group_of b rows = map snd (filter (\<lambda>row. fst row = b) rows)"

definition lines_written :: "string \<Rightarrow> nat" where
  "lines_written out = length (filter (\<lambda>c. c = CHR 0x0A) out)"

text \<open>
  The text expected from the verb \<open>%d\<close> for a number from 0 to 99, written out digit by
  digit: what the formatter of the model is compared with.
\<close>

definition decimal_below_100 :: "int \<Rightarrow> string" where
  "decimal_below_100 p =
     (if p < 10 then [''0123456789'' ! nat p]
      else [''0123456789'' ! nat (p div 10), ''0123456789'' ! nat (p mod 10)])"

section \<open>Query trees and their constructors (bench/query.go)\<close>

text \<open>
  \<open>pql.Call\<close> is declared outside the repository: a node has a \<open>Name\<close>, an argument map
  \<open>Args\<close> of type \<open>map[string]interface{}\<close> and \<open>Children\<close>, a slice of node pointers.
  A pointer that may be \<open>nil\<close> is an \<open>option\<close>. The values stored in argument maps are
  unsigned and signed integers, strings, lists of those, and references to structures
  held elsewhere. An argument map is an association list with distinct keys; a \<open>nil\<close> map
  reads as the empty one. The type parameter is the representation of \<open>Args\<close>: the map
  itself where nothing is shared, an address in a store where sharing matters.
\<close>

datatype val =
    VUint int
  | VInt int
  | VStr string
  | VUints "int list"
  | VVals "val list"
  | VRef nat

type_synonym attrs = "(string \<times> val) list"

datatype 'm call = Call (Name: string) (Args: 'm) (Children: "'m call option list")

type_synonym qcall = "attrs call"

definition ClearBit :: "int \<Rightarrow> string \<Rightarrow> int \<Rightarrow> qcall option" where
  "ClearBit id' frame columnID =
     Some (Call ''ClearBit'' [(''id'', VUint id'), (''frame'', VStr frame), (''columnID'', VUint columnID)] [])"

definition Count :: "qcall option \<Rightarrow> qcall option" where
  "Count child = Some (Call ''Count'' [] [child])"

definition Column :: "int \<Rightarrow> qcall option" where
  "Column id' = Some (Call ''Column'' [(''id'', VUint id')] [])"

definition SetBit :: "int \<Rightarrow> string \<Rightarrow> int \<Rightarrow> qcall option" where
  "SetBit id' frame columnID =
     Some (Call ''SetBit'' [(''id'', VUint id'), (''frame'', VStr frame), (''columnID'', VUint columnID)] [])"

definition TopN :: "string \<Rightarrow> int \<Rightarrow> qcall option \<Rightarrow> int list \<Rightarrow> string \<Rightarrow> val list \<Rightarrow> qcall option" where
  "TopN frame n src bmids field filters =
     Some (Call ''TopN''
       [(''frame'', VStr frame), (''n'', VInt n), (''ids'', VUints bmids),
        (''field'', VStr field), (''filters'', VVals filters)]
       [src])"

definition Difference :: "qcall option list \<Rightarrow> qcall option" where
  "Difference bms = Some (Call ''Difference'' [] bms)"

definition Intersect :: "qcall option list \<Rightarrow> qcall option" where
  "Intersect bms = Some (Call ''Intersect'' [] bms)"

definition Union :: "qcall option list \<Rightarrow> qcall option" where
  "Union bms = Some (Call ''Union'' [] bms)"

definition Bitmap :: "int \<Rightarrow> string \<Rightarrow> qcall option" where
  "Bitmap id' frame = Some (Call ''Bitmap'' [(''rowID'', VUint id'), (''frame'', VStr frame)] [])"

subsection \<open>Constructors that copy a caller's map\<close>

text \<open>
  Go maps are references, so \<open>copyArgs\<close>, \<open>SetRowAttrs\<close> and \<open>SetColumnAttrs\<close> work on a
  store of maps: the address of a map is its index in the store and \<open>make\<close> appends a new
  empty map. A map reference is \<open>None\<close> for \<open>nil\<close>; ranging over a \<open>nil\<close> map visits nothing.
  Every non-\<open>nil\<close> reference a Go program holds is allocated, which \<open>valid_ref\<close> states.
\<close>

type_synonym heap = "attrs list"

definition valid_ref :: "heap \<Rightarrow> nat option \<Rightarrow> bool" where
  "valid_ref h m = (case m of None \<Rightarrow> True | Some a \<Rightarrow> a < length h)"

definition map_entries :: "heap \<Rightarrow> nat option \<Rightarrow> attrs" where
  "map_entries h m = (case m of None \<Rightarrow> [] | Some a \<Rightarrow> h ! a)"

definition map_assign :: "heap \<Rightarrow> nat \<Rightarrow> string \<Rightarrow> val \<Rightarrow> heap" where
  "map_assign h a k v = h[a := AList.update k v (h ! a)]"

text \<open>The loop \<open>for k, v := range m { other[k] = v }\<close>, in the order the entries are held.\<close>

fun copy_loop :: "attrs \<Rightarrow> nat \<Rightarrow> heap \<Rightarrow> heap" where
  "copy_loop [] other h = h"
| "copy_loop ((k, v) # kvs) other h = copy_loop kvs other (map_assign h other k v)"

definition copyArgs :: "heap \<Rightarrow> nat option \<Rightarrow> nat \<times> heap" where
  "copyArgs h m = (length h, copy_loop (map_entries h m) (length h) (h @ [[]]))"

definition SetRowAttrs :: "heap \<Rightarrow> int \<Rightarrow> string \<Rightarrow> nat option \<Rightarrow> nat option call option \<times> heap" where
  "SetRowAttrs h id' frame attrs =
     (case copyArgs h attrs of
        (args, h1) \<Rightarrow>
          (Some (Call ''SetRowAttrs'' (Some args) []),
           map_assign (map_assign h1 args ''id'' (VUint id')) args ''columnID'' (VStr frame)))"

definition SetColumnAttrs :: "heap \<Rightarrow> int \<Rightarrow> nat option \<Rightarrow> nat option call option \<times> heap" where
  "SetColumnAttrs h id' attrs =
     (case copyArgs h attrs of
        (args, h1) \<Rightarrow>
          (Some (Call ''SetColumnAttrs'' (Some args) []),
           map_assign h1 args ''id'' (VUint id')))"

section \<open>The random query generator (bench/query.go)\<close>

record QueryGenerator =
  IDToFrameFn :: "int \<Rightarrow> string"
  R :: rand
  Frames :: "string list"

definition NewQueryGenerator :: "(int \<Rightarrow> rand) \<Rightarrow> int \<Rightarrow> QueryGenerator" where
  "NewQueryGenerator NewSource seed =
     \<lparr> IDToFrameFn = (\<lambda>id'. ''fbench''), R = NewSource seed, Frames = [''fbench''] \<rparr>"

text \<open>
  The choice of \<open>numargs\<close> in \<open>RandomBitmapCall\<close>:
  \<open>if maxargs <= 2 { numargs = 2 } else { numargs = q.R.Intn(maxargs-2) + 2 }\<close>.
  Behind the guard neither \<open>maxargs - 2\<close> nor the sum can overflow.
\<close>

definition choose_numargs :: "int \<Rightarrow> rand \<Rightarrow> panic + (int \<times> rand)" where
  "choose_numargs maxargs r =
     (if maxargs \<le> 2 then Inr (2, r)
      else (case Intn (maxargs - 2) r of
              Inl p \<Rightarrow> Inl p
            | Inr (v, r') \<Rightarrow> Inr (v + 2, r')))"

text \<open>
  The final \<open>switch call { case 1: ... case 2: ... case 3: ... }\<close> with its fall-through
  \<open>return nil\<close>.
\<close>

definition setop :: "int \<Rightarrow> qcall option list \<Rightarrow> qcall option" where
  "setop call calls =
     (if call = 1 then Difference calls
      else if call = 2 then Intersect calls
      else if call = 3 then Union calls
      else None)"

text \<open>
  \<open>RandomBitmapCall\<close>, and the loop
  \<open>for i := 0; i < numargs; i++ { calls[i] = q.RandomBitmapCall(depth-1, maxargs, idmin, idmax) }\<close>
  as \<open>fill_calls\<close>. The generator \<open>q.R\<close> is advanced by every draw, so the updated
  \<open>QueryGenerator\<close> is returned with the node.
\<close>

function RandomBitmapCall ::
    "int \<Rightarrow> QueryGenerator \<Rightarrow> int \<Rightarrow> int \<Rightarrow> int \<Rightarrow> int \<Rightarrow> panic + (qcall option \<times> QueryGenerator)"
  and fill_calls ::
    "int \<Rightarrow> QueryGenerator \<Rightarrow> int \<Rightarrow> int \<Rightarrow> int \<Rightarrow> int \<Rightarrow> int \<Rightarrow> int \<Rightarrow> qcall option list
       \<Rightarrow> panic + (qcall option list \<times> QueryGenerator)" where
  "RandomBitmapCall maxAlloc q depth maxargs idmin idmax =
     (if depth \<le> 1 then
        (case Int63n (sub64 (to_int64 idmax) (to_int64 idmin)) (R q) of
           Inl p \<Rightarrow> Inl p
         | Inr (v, r') \<Rightarrow>
             Inr (Bitmap (to_uint64 (add64 v (to_int64 idmin)))
                    (IDToFrameFn q (to_uint64 (add64 v (to_int64 idmin)))),
                  q\<lparr>R := r'\<rparr>))
      else
        (case Intn 4 (R q) of
           Inl p \<Rightarrow> Inl p
         | Inr (call, r1) \<Rightarrow>
             if call = 0 then RandomBitmapCall maxAlloc (q\<lparr>R := r1\<rparr>) 1 0 idmin idmax
             else
               (case choose_numargs maxargs r1 of
                  Inl p \<Rightarrow> Inl p
                | Inr (numargs, r2) \<Rightarrow>
               (case make_slice maxAlloc 8 numargs None of
                  Inl p \<Rightarrow> Inl p
                | Inr calls0 \<Rightarrow>
               (case fill_calls maxAlloc (q\<lparr>R := r2\<rparr>) 0 numargs (depth - 1) maxargs idmin idmax calls0 of
                  Inl p \<Rightarrow> Inl p
                | Inr (calls, q') \<Rightarrow> Inr (setop call calls, q'))))))"
| "fill_calls maxAlloc q i numargs depth maxargs idmin idmax calls =
     (if i < numargs then
        (case RandomBitmapCall maxAlloc q depth maxargs idmin idmax of
           Inl p \<Rightarrow> Inl p
         | Inr (c, q') \<Rightarrow>
             if 0 \<le> i \<and> i < int (length calls)
             then fill_calls maxAlloc q' (i + 1) numargs depth maxargs idmin idmax (calls[nat i := c])
             else Inl IndexOutOfRange)
      else Inr (calls, q))"
  by pat_completeness auto
termination
  by (relation "inv_image (less_than <*lex*> less_than)
        (\<lambda>x. case x of
                Inl (maxAlloc, q, depth, rest) \<Rightarrow> (nat depth, 0)
              | Inr (maxAlloc, q, i, numargs, depth, rest) \<Rightarrow>
                  (nat depth, Suc (nat (numargs - i))))")
     auto

declare RandomBitmapCall.simps [simp del] fill_calls.simps [simp del]

text \<open>\<open>RandomTopN\<close> and \<open>Random\<close>; the draws happen in the order the source writes them.\<close>

definition RandomTopN ::
  "int \<Rightarrow> QueryGenerator \<Rightarrow> int \<Rightarrow> int \<Rightarrow> int \<Rightarrow> int \<Rightarrow> int \<Rightarrow> panic + (qcall option \<times> QueryGenerator)" where
  "RandomTopN maxAlloc q maxN depth maxargs idmin idmax =
     (case Intn (int (length (Frames q))) (R q) of
        Inl p \<Rightarrow> Inl p
      | Inr (frameIdx, r1) \<Rightarrow>
     (case index_at (Frames q) frameIdx of
        Inl p \<Rightarrow> Inl p
      | Inr frame \<Rightarrow>
     (case Intn (sub64 maxN 1) r1 of
        Inl p \<Rightarrow> Inl p
      | Inr (v, r2) \<Rightarrow>
     (case RandomBitmapCall maxAlloc (q\<lparr>R := r2\<rparr>) depth maxargs idmin idmax of
        Inl p \<Rightarrow> Inl p
      | Inr (child, q') \<Rightarrow>
          Inr (Some (Call ''TopN''
                 [(''frame'', VStr frame), (''n'', VUint (to_uint64 (add64 v 1)))] [child]),
               q')))))"

definition Random ::
  "int \<Rightarrow> QueryGenerator \<Rightarrow> int \<Rightarrow> int \<Rightarrow> int \<Rightarrow> int \<Rightarrow> int \<Rightarrow> panic + (qcall option \<times> QueryGenerator)" where
  "Random maxAlloc q maxN depth maxargs idmin idmax =
     (case Intn 5 (R q) of
        Inl p \<Rightarrow> Inl p
      | Inr (val, r1) \<Rightarrow>
          if val = 0 then RandomTopN maxAlloc (q\<lparr>R := r1\<rparr>) maxN depth maxargs idmin idmax
          else RandomBitmapCall maxAlloc (q\<lparr>R := r1\<rparr>) depth maxargs idmin idmax)"

text \<open>
  Observations on generated trees: \<open>setop_nodes P c\<close> holds when the number of children of
  every \<open>Difference\<close>, \<open>Intersect\<close> and \<open>Union\<close> node of \<open>c\<close> satisfies \<open>P\<close>.
\<close>

definition is_setop :: "string \<Rightarrow> bool" where
  "is_setop n \<longleftrightarrow> n = ''Difference'' \<or> n = ''Intersect'' \<or> n = ''Union''"

fun setop_nodes :: "(nat \<Rightarrow> bool) \<Rightarrow> qcall \<Rightarrow> bool" where
  "setop_nodes P (Call n a cs) =
     ((if is_setop n then P (length cs) else True) \<and>
      list_all (\<lambda>c. case c of None \<Rightarrow> True | Some c' \<Rightarrow> setop_nodes P c') cs)"

section \<open>The query runners (bench/query.go)\<close>

text \<open>A Go \<open>error\<close> is modelled by its message.\<close>

datatype error = Errorf (message: string)

type_synonym duration = int

text \<open>
  Modelled from the spec: \<open>Result\<close>, \<open>NewResult\<close> and \<open>Result.Add\<close> are declared in a file of
  the repository that is not among the sources. The specification describes a Result as
  the accumulated list of (duration, response-or-nil) pairs plus an optional terminal
  error, append-only during a run.
\<close>

record 'a Result =
  measurements :: "(duration \<times> 'a option) list"
  err :: "error option"

definition NewResult :: "'a Result" where
  "NewResult = \<lparr> measurements = [], err = None \<rparr>"

definition Add :: "'a Result \<Rightarrow> duration \<Rightarrow> 'a option \<Rightarrow> 'a Result" where
  "Add results d resp = results\<lparr>measurements := measurements results @ [(d, resp)]\<rparr>"

text \<open>
  Modelled from the spec: the embedded \<open>HasClient\<close> is declared outside the sources as well.
  Its \<open>client\<close> pointer may be \<open>nil\<close>; the query execution collaborator accepts an index
  name and a serialized query and returns a response value and an error. The
  collaborator is a function of the number of submissions it has already received, so
  that it can fail on a given call. The wall clock is an oracle too: \<open>clock k\<close> is the
  duration \<open>time.Since(start)\<close> measured around submission number \<open>k\<close>. The diagnostic line
  written to standard error by \<open>Query.Run\<close> is not modelled.
\<close>

type_synonym 'a client = "nat \<Rightarrow> string \<Rightarrow> string \<Rightarrow> 'a option \<times> error option"

type_synonym clock = "nat \<Rightarrow> duration"

record 'a Query =
  client :: "'a client option"
  Name :: string
  Query :: string
  Index :: string
  Iterations :: int

text \<open>The loop \<open>for n := 0; n < b.Iterations; n++\<close> of \<open>Query.Run\<close>.\<close>

function Query_loop :: "'a Query \<Rightarrow> 'a client \<Rightarrow> clock \<Rightarrow> int \<Rightarrow> 'a Result \<Rightarrow> 'a Result" where
  "Query_loop b cl clk n results =
     (if n < Iterations b then
        (case cl (nat n) (Index b) (Query b) of
           (res, e) \<Rightarrow>
             (case e of
                Some e' \<Rightarrow>
                  (Add results (clk (nat n)) res)
                    \<lparr>err := Some (Errorf (''problem with query #'' @ fmt_d n @ '': '' @ message e'))\<rparr>
              | None \<Rightarrow> Query_loop b cl clk (n + 1) (Add results (clk (nat n)) res)))
      else results)"
  by pat_completeness auto
termination
  by (relation "measure (\<lambda>(b, cl, clk, n, results). nat (Iterations b - n))") auto

declare Query_loop.simps [simp del]

definition Query_Run :: "'a Query \<Rightarrow> clock \<Rightarrow> 'a Result" where
  "Query_Run b clk =
     (case client b of
        None \<Rightarrow> NewResult\<lparr>err := Some (Errorf ''No client set for Query benchmark'')\<rparr>
      | Some cl \<Rightarrow> Query_loop b cl clk 0 NewResult)"

record 'a BasicQuery =
  client :: "'a client option"
  Name :: string
  BaseRowID :: int
  Iterations :: int
  NumArgs :: int
  Query :: string
  Index :: string
  Frame :: string

text \<open>
  \<open>BasicQuery.Run\<close> builds \<open>b.NumArgs\<close> Bitmap nodes, each with an argument map of its own,
  and overwrites their \<open>rowID\<close> in every iteration. \<open>query.String()\<close> belongs to the external
  \<open>pql\<close> package and is the parameter \<open>render\<close>.
\<close>

definition set_rowID :: "int \<Rightarrow> qcall option \<Rightarrow> qcall option" where
  "set_rowID v c = map_option (\<lambda>c'. Call (call.Name c') (AList.update ''rowID'' (VInt v) (Args c')) (Children c')) c"

function BasicQuery_loop ::
  "'a BasicQuery \<Rightarrow> 'a client \<Rightarrow> clock \<Rightarrow> (qcall \<Rightarrow> string) \<Rightarrow> int \<Rightarrow> qcall option list \<Rightarrow> 'a Result
     \<Rightarrow> 'a Result" where
  "BasicQuery_loop b cl clk render n bms results =
     (if n < BasicQuery.Iterations b then
        (case cl (nat n) (BasicQuery.Index b)
                (render (Call (BasicQuery.Query b) []
                   (map (set_rowID (add64 (BaseRowID b) n)) bms))) of
           (res, e) \<Rightarrow>
             (case e of
                Some e' \<Rightarrow> (Add results (clk (nat n)) None)\<lparr>err := Some e'\<rparr>
              | None \<Rightarrow>
                  BasicQuery_loop b cl clk render (n + 1)
                    (map (set_rowID (add64 (BaseRowID b) n)) bms)
                    (Add results (clk (nat n)) None)))
      else results)"
  by pat_completeness auto
termination
  by (relation "measure (\<lambda>(b, cl, clk, render, n, bms, results). nat (BasicQuery.Iterations b - n))")
     auto

declare BasicQuery_loop.simps [simp del]

definition BasicQuery_Run :: "int \<Rightarrow> 'a BasicQuery \<Rightarrow> clock \<Rightarrow> (qcall \<Rightarrow> string) \<Rightarrow> panic + 'a Result" where
  "BasicQuery_Run maxAlloc b clk render =
     (case BasicQuery.client b of
        None \<Rightarrow> Inr (NewResult\<lparr>err := Some (Errorf ''No client set for BasicQuery'')\<rparr>)
      | Some cl \<Rightarrow>
          (case make_slice maxAlloc 8 (NumArgs b) (Some (Call ''Bitmap'' [(''frame'', VStr (Frame b))] [])) of
             Inl p \<Rightarrow> Inl p
           | Inr bms \<Rightarrow> Inr (BasicQuery_loop b cl clk render 0 bms NewResult)))"

text \<open>A collaborator that answers every submission and fails from a given call on.\<close>

definition fails_from :: "nat \<Rightarrow> string client" where
  "fails_from k = (\<lambda>n index query.
     if n < k then (Some ''ok'', None) else (None, Some (Errorf ''connection refused'')))"

definition unit_clock :: clock where
  "unit_clock = (\<lambda>k. 1)"

definition render_name :: "qcall \<Rightarrow> string" where
  "render_name c = call.Name c"

section \<open>Initialisation of the import benchmark (bench/import.go)\<close>

text \<open>
  The \<open>Import\<close> struct with the fields of the embedded \<open>ctl.ImportCommand\<close> that the code
  touches. \<open>Init\<close> creates a temporary file, has \<open>GenerateImportCSV\<close> write into it and
  closes it. The file system is the list of files written, with their contents; the
  outcome of \<open>ioutil.TempFile\<close> (an error, or the name of the new file) and of \<open>f.Close\<close>
  are given by the environment.
\<close>

record Import =
  Name :: string
  BaseBitmapID :: int
  MaxBitmapID :: int
  BaseProfileID :: int
  MaxProfileID :: int
  RandomBitmapOrder :: bool
  MinBitsPerMap :: int
  MaxBitsPerMap :: int
  AgentControls :: string
  Seed :: int
  numbits :: int
  Host :: string
  Index :: string
  Frame :: string
  Paths :: "string list"
  BufferSize :: int

text \<open>The \<open>switch b.AgentControls\<close> of \<open>Init\<close>.\<close>

definition agent_controls :: "Import \<Rightarrow> int \<Rightarrow> error + Import" where
  "agent_controls b agentNum =
     (if AgentControls b = ''height'' then
        Inr (b\<lparr> BaseBitmapID :=
                 add64 (BaseBitmapID b)
                   (mul64 (sub64 (MaxBitmapID b) (BaseBitmapID b)) agentNum),
               MaxBitmapID :=
                 add64 (add64 (BaseBitmapID b)
                          (mul64 (sub64 (MaxBitmapID b) (BaseBitmapID b)) agentNum))
                   (sub64 (MaxBitmapID b) (BaseBitmapID b)) \<rparr>)
      else if AgentControls b = ''width'' then
        Inr (b\<lparr> BaseProfileID :=
                 add64 (BaseProfileID b)
                   (mul64 (sub64 (MaxProfileID b) (BaseProfileID b)) agentNum),
               MaxProfileID :=
                 add64 (add64 (BaseProfileID b)
                          (mul64 (sub64 (MaxProfileID b) (BaseProfileID b)) agentNum))
                   (sub64 (MaxProfileID b) (BaseProfileID b)) \<rparr>)
      else if AgentControls b = [] then Inr b
      else Inl (Errorf (''agent-controls: '' @ [CHR 0x27] @ AgentControls b @ [CHR 0x27]
                          @ '' is not supported'')))"

definition Import_Init ::
  "int \<Rightarrow> (int \<Rightarrow> rand) \<Rightarrow> error + string \<Rightarrow> error option \<Rightarrow> Import \<Rightarrow> string list \<Rightarrow> int
     \<Rightarrow> (string \<times> string) list
     \<Rightarrow> panic + (error option \<times> Import \<times> (string \<times> string) list)" where
  "Import_Init maxAlloc NewSource tmp close_err b hosts agentNum files =
     (if length hosts = 0 then Inr (Some (Errorf ''Need at least one host''), b, files)
      else
        (case agent_controls
                (b\<lparr> Import.Name := ''import'', Host := hosts ! 0,
                    Seed := add64 (Seed b) agentNum \<rparr>) agentNum of
           Inl e \<Rightarrow>
             Inr (Some e,
                  b\<lparr> Import.Name := ''import'', Host := hosts ! 0,
                     Seed := add64 (Seed b) agentNum \<rparr>,
                  files)
         | Inr b' \<Rightarrow>
        (case tmp of
           Inl e \<Rightarrow> Inr (Some e, b', files)
         | Inr fname \<Rightarrow>
        (case GenerateImportCSV maxAlloc NewSource (BaseBitmapID b') (MaxBitmapID b')
                (BaseProfileID b') (MaxProfileID b') (MinBitsPerMap b') (MaxBitsPerMap b')
                (Seed b') (RandomBitmapOrder b') of
           Inl p \<Rightarrow> Inl p
         | Inr (num, out) \<Rightarrow>
             Inr (close_err, b'\<lparr> numbits := num, Paths := [fname] \<rparr>,
                  files @ [(fname, out)])))))"

definition default_Import :: Import where
  "default_Import =
     \<lparr> Name = [], BaseBitmapID = 0, MaxBitmapID = 1000, BaseProfileID = 0,
       MaxProfileID = 1000, RandomBitmapOrder = False, MinBitsPerMap = 0,
       MaxBitsPerMap = 10, AgentControls = [], Seed = 0, numbits = 0, Host = [],
       Index = ''benchindex'', Frame = ''testframe'', Paths = [], BufferSize = 10000000 \<rparr>"

section \<open>Observations and concrete inputs\<close>

text \<open>
  The bound the code puts on the number of children of a set operation: exactly 2 for
  \<open>maxargs \<le> 2\<close>, otherwise from 2 to \<open>maxargs - 1\<close>. \<open>child_ok P c\<close> lifts \<open>setop_nodes\<close> to
  a node pointer.
\<close>

definition fanout_ok :: "int \<Rightarrow> nat \<Rightarrow> bool" where
  "fanout_ok maxargs n = (if maxargs \<le> 2 then n = 2 else 2 \<le> int n \<and> int n \<le> maxargs - 1)"

definition child_ok :: "(nat \<Rightarrow> bool) \<Rightarrow> qcall option \<Rightarrow> bool" where
  "child_ok P c = (case c of None \<Rightarrow> True | Some c' \<Rightarrow> setop_nodes P c')"

text \<open>
  A stream of draws that selects the operation \<open>op\<close> (first draw) and then \<open>k\<close> arguments
  (second draw \<open>k - 2\<close>); all later draws are 0.
\<close>

definition numargs_rand :: "int \<Rightarrow> int \<Rightarrow> rand" where
  "numargs_rand op k = (\<lambda>i. if i = 0 then nat op else if i = 1 then nat (k - 2) else 0)"

text \<open>Concrete generators, runners and a store, on which the model is evaluated.\<close>

definition example_generator :: QueryGenerator where
  "example_generator = NewQueryGenerator (fixed_source (const_rand 1)) 0"

definition example_generator4 :: QueryGenerator where
  "example_generator4 = NewQueryGenerator (fixed_source (numargs_rand 2 4)) 0"

definition example_heap :: heap where
  "example_heap = [[(''color'', VStr ''red''), (''id'', VUint 3), (''tags'', VRef 1)], [(''t'', VUint 1)]]"

definition example_Query :: "string Query" where
  "example_Query = \<lparr> Query.client = Some (fails_from 2), Query.Name = ''query'',
      Query.Query = ''Count(Bitmap(rowID=1))'', Query.Index = ''benchindex'',
      Query.Iterations = 5 \<rparr>"

definition example_BasicQuery :: "string BasicQuery" where
  "example_BasicQuery = \<lparr> BasicQuery.client = Some (fails_from 2),
      BasicQuery.Name = ''basic-query'', BaseRowID = 0, BasicQuery.Iterations = 5, NumArgs = 2,
      BasicQuery.Query = ''Intersect'', BasicQuery.Index = ''benchindex'',
      BasicQuery.Frame = ''fbench'' \<rparr>"

section \<open>Properties of the import dataset generator\<close>

lemma wrap64_id: "is_int64 x \<Longrightarrow> wrap64 x = x"
  by (simp add: wrap64_def is_int64_def)

lemma Int63n_Inr: "Int63n n r = Inr (v, r') \<Longrightarrow> 0 < n \<and> 0 \<le> v \<and> v < n \<and> r' = advance r"
  by (auto simp: Int63n_def split: if_splits)

lemma emit_rows_eq:
  "0 \<le> j \<Longrightarrow> n \<le> int (length ps) \<Longrightarrow>
   emit_rows j n b ps out = Inr (out @ map (Pair b) (drop (nat j) (take (nat n) ps)))"
proof (induction j n b ps out rule: emit_rows.induct)
  case (1 j n b ps out)
  show ?case
  proof (cases "j < n")
    case True
    with "1.prems" have idx: "index_at ps j = Inr (ps ! nat j)"
      by (simp add: index_at_def)
    have lt: "nat j < length (take (nat n) ps)"
      using True "1.prems" by simp
    have nj: "nat (j + 1) = Suc (nat j)"
      using "1.prems" by simp
    have "drop (nat j) (take (nat n) ps) = ps ! nat j # drop (nat (j + 1)) (take (nat n) ps)"
      using lt nj by (simp add: Cons_nth_drop_Suc [symmetric])
    moreover have "emit_rows (j + 1) n b ps (out @ [(b, ps ! nat j)]) =
        Inr ((out @ [(b, ps ! nat j)]) @ map (Pair b) (drop (nat (j + 1)) (take (nat n) ps)))"
      using "1.IH" [OF True idx] "1.prems" by simp
    ultimately show ?thesis
      using True idx by (subst emit_rows.simps) simp
  next
    case False
    then have "drop (nat j) (take (nat n) ps) = []"
      using "1.prems" by simp
    with False show ?thesis
      by (subst emit_rows.simps) simp
  qed
qed

lemma draw_profileIDs_length:
  "draw_profileIDs j n bp mp buf r = Inr (buf', r') \<Longrightarrow> length buf' = length buf"
proof (induction j n bp mp buf r rule: draw_profileIDs.induct)
  case (1 j n bp mp buf r)
  show ?case
  proof (cases "j < n")
    case True
    from "1.prems" True obtain v r1 where
      d: "Int63n (sub64 mp bp) r = Inr (v, r1)" and
      ok: "0 \<le> j \<and> j < int (length buf)" and
      rec: "draw_profileIDs (j + 1) n bp mp (buf[nat j := add64 v bp]) r1 = Inr (buf', r')"
      by (subst (asm) draw_profileIDs.simps) (auto split: sum.splits if_splits)
    from "1.IH" [OF True d refl ok rec] show ?thesis by simp
  next
    case False
    with "1.prems" show ?thesis
      by (subst (asm) draw_profileIDs.simps) simp
  qed
qed

lemma slice_to_Inr: "slice_to buf n = Inr xs \<Longrightarrow> 0 \<le> n \<and> xs = take (nat n) buf \<and> length xs = nat n"
  by (auto simp: slice_to_def split: if_splits)

lemma gen_body_Inr:
  assumes "gen_body i baseBitmapID baseProfileID maxProfileID minBitsPerMap maxBitsPerMap
             randomOrder bitmapIDs s = Inr s'"
  shows "\<exists>b ps. (if randomOrder then index_at bitmapIDs (sub64 i baseBitmapID) = Inr b
                  else b = i \<and> sorted ps) \<and>
           w s' = w s @ map (Pair b) ps \<and> visited s' = visited s @ [b] \<and>
           numrows s' = add64 (numrows s) (int (length ps)) \<and>
           length (profileIDs s') = length (profileIDs s)"
proof -
  from assms obtain b v r1 buf r2 drawn out where
    b: "(if randomOrder then index_at bitmapIDs (sub64 i baseBitmapID) else Inr i) = Inr b" and
    n: "Int63n (sub64 maxBitsPerMap minBitsPerMap) (rng s) = Inr (v, r1)" and
    d: "draw_profileIDs 0 (add64 v minBitsPerMap) baseProfileID maxProfileID (profileIDs s) r1
          = Inr (buf, r2)" and
    sl: "slice_to buf (add64 v minBitsPerMap) = Inr drawn" and
    e: "emit_rows 0 (add64 v minBitsPerMap) b (if randomOrder then drawn else sort drawn) (w s)
          = Inr out" and
    s': "s' = \<lparr> numrows = add64 (numrows s) (add64 v minBitsPerMap),
                profileIDs = (if randomOrder then drawn else sort drawn) @ drop (length drawn) buf,
                rng = r2, w = out, visited = visited s @ [b] \<rparr>"
    unfolding gen_body_def by (auto split: sum.splits prod.splits)
  let ?n = "add64 v minBitsPerMap"
  let ?ps = "if randomOrder then drawn else sort drawn"
  from slice_to_Inr [OF sl] have n0: "0 \<le> ?n" and dr: "drawn = take (nat ?n) buf" and
    len: "length drawn = nat ?n" by auto
  have lps: "length ?ps = nat ?n" using len by simp
  have "emit_rows 0 ?n b ?ps (w s) = Inr (w s @ map (Pair b) (drop (nat 0) (take (nat ?n) ?ps)))"
    by (rule emit_rows_eq) (use lps n0 in auto)
  with e lps have out: "out = w s @ map (Pair b) ?ps" by simp
  have lb: "length buf = length (profileIDs s)"
    using draw_profileIDs_length [OF d] .
  have "length (?ps @ drop (length drawn) buf) = length buf"
    using dr by auto
  with s' out b lps n0 lb show ?thesis
    by (intro exI [of _ b] exI [of _ ?ps]) (auto split: if_splits)
qed

lemma group_of_append: "group_of b (xs @ ys) = group_of b xs @ group_of b ys"
  by (simp add: group_of_def)

lemma group_of_Pair: "group_of b (map (Pair c) ps) = (if b = c then ps else [])"
  by (induction ps) (auto simp: group_of_def)

lemma group_of_lt: "\<forall>row\<in>set rows. fst row < i \<Longrightarrow> group_of i rows = []"
  by (induction rows) (auto simp: group_of_def)

lemma map_fst_Pair: "map fst (map (Pair c) ps) = replicate (length ps) c"
  by (induction ps) auto

lemma gen_loop_ascending:
  assumes "gen_loop i baseBitmapID maxBitmapID baseProfileID maxProfileID minBitsPerMap
             maxBitsPerMap False bitmapIDs s = Inr s'"
    and "\<forall>row\<in>set (w s). fst row < i"
    and "sorted (map fst (w s))"
    and "\<forall>b. sorted (group_of b (w s))"
  shows "visited s' = visited s @ [i..maxBitmapID - 1] \<and>
         sorted (map fst (w s')) \<and> (\<forall>b. sorted (group_of b (w s'))) \<and>
         (\<forall>row\<in>set (w s'). row \<in> set (w s) \<or> (i \<le> fst row \<and> fst row < maxBitmapID))"
  using assms
proof (induction i baseBitmapID maxBitmapID baseProfileID maxProfileID minBitsPerMap
         maxBitsPerMap "False" bitmapIDs s rule: gen_loop.induct)
  case (1 i baseBitmapID maxBitmapID baseProfileID maxProfileID minBitsPerMap maxBitsPerMap bitmapIDs s)
  show ?case
  proof (cases "i < maxBitmapID")
    case False
    with "1.prems" have "s' = s"
      by (subst (asm) gen_loop.simps) simp
    moreover from False have "[i..maxBitmapID - 1] = []" by simp
    ultimately show ?thesis using "1.prems" by simp
  next
    case True
    from "1.prems"(1) True obtain s1 where
      body: "gen_body i baseBitmapID baseProfileID maxProfileID minBitsPerMap maxBitsPerMap
               False bitmapIDs s = Inr s1" and
      rest: "gen_loop (i + 1) baseBitmapID maxBitmapID baseProfileID maxProfileID minBitsPerMap
               maxBitsPerMap False bitmapIDs s1 = Inr s'"
      by (subst (asm) gen_loop.simps) (auto split: sum.splits)
    from gen_body_Inr [OF body] obtain ps where
      ps: "sorted ps" and w1: "w s1 = w s @ map (Pair i) ps" and
      v1: "visited s1 = visited s @ [i]"
      by auto
    have a: "\<forall>row\<in>set (w s1). fst row < i + 1"
      using "1.prems"(2) w1 by auto
    have b: "sorted (map fst (w s1))"
      using "1.prems"(2,3) w1 by (auto simp: sorted_append map_fst_Pair simp del: map_map)
    have c: "\<forall>b. sorted (group_of b (w s1))"
      using "1.prems"(2,4) ps w1
      by (auto simp: group_of_append group_of_Pair group_of_lt)
    from "1.hyps" [OF True body rest a b c]
    have ih: "visited s' = visited s1 @ [i + 1..maxBitmapID - 1]"
      "sorted (map fst (w s'))" "\<forall>b. sorted (group_of b (w s'))"
      "\<forall>row\<in>set (w s'). row \<in> set (w s1) \<or> (i + 1 \<le> fst row \<and> fst row < maxBitmapID)"
      by auto
    have "[i..maxBitmapID - 1] = i # [i + 1..maxBitmapID - 1]"
      using True by (simp add: upto_rec1)
    with ih v1 have "visited s' = visited s @ [i..maxBitmapID - 1]" by simp
    moreover have "\<forall>row\<in>set (w s'). row \<in> set (w s) \<or> (i \<le> fst row \<and> fst row < maxBitmapID)"
      using ih(4) w1 True by fastforce
    ultimately show ?thesis using ih by simp
  qed
qed

lemma digit_char_not_nl: "d < 10 \<Longrightarrow> digit_char d \<noteq> CHR 0x0A"
proof -
  assume "d < 10"
  then have "d \<in> {0,1,2,3,4,5,6,7,8,9}" by auto
  then show ?thesis by (auto simp: digit_char_def)
qed

lemma dec_nat_no_nl: "CHR 0x0A \<notin> set (dec_nat n)"
proof (induction n rule: dec_nat.induct)
  case (1 n)
  show ?case
  proof (cases "n < 10")
    case True
    then show ?thesis using digit_char_not_nl [of n] by (subst dec_nat.simps) auto
  next
    case False
    have "n mod 10 < 10" by simp
    from digit_char_not_nl [OF this] "1.IH" [OF False] False show ?thesis
      by (subst dec_nat.simps) auto
  qed
qed

lemma fmt_d_no_nl: "CHR 0x0A \<notin> set (fmt_d x)"
  using dec_nat_no_nl by (simp add: fmt_d_def)

lemma lines_written_fmt_row: "lines_written (fmt_row row) = 1"
  using fmt_d_no_nl [of "fst row"] fmt_d_no_nl [of "snd row"]
  by (auto simp: lines_written_def fmt_row_def filter_empty_conv)

lemma lines_written_append: "lines_written (xs @ ys) = lines_written xs + lines_written ys"
  by (simp add: lines_written_def)

text \<open>
  Claim C7. With \<open>randomOrder = false\<close>, whenever the generator returns, the bitmap ids of
  the loop iterations are \<open>baseBitmapID, baseBitmapID + 1, ..., maxBitmapID - 1\<close> in this
  order, the rows are written in non-decreasing order of bitmap id, and for every bitmap
  id the profile ids written for it are non-decreasing in emission order.
\<close>

theorem GenerateImportCSV_ascending_sorted:
  assumes "generate maxAlloc NewSource baseBitmapID maxBitmapID baseProfileID maxProfileID minBitsPerMap
             maxBitsPerMap seed False = Inr s"
  shows "visited s = [baseBitmapID..maxBitmapID - 1] \<and> sorted (map fst (w s)) \<and>
         (\<forall>b. sorted (group_of b (w s)))"
proof -
  from assms obtain buf0 where
    "gen_loop baseBitmapID baseBitmapID maxBitmapID baseProfileID maxProfileID minBitsPerMap
       maxBitsPerMap False [] \<lparr> numrows = 0, profileIDs = buf0, rng = NewSource seed, w = [], visited = [] \<rparr>
     = Inr s"
    unfolding generate_def by (auto split: sum.splits)
  from gen_loop_ascending [OF this] show ?thesis
    by (simp add: group_of_def)
qed

theorem GenerateImportCSV_ascending_sorted_witness:
  "\<not> isl (generate maxAlloc64 (fixed_source (affine_rand 3 157)) 0 3 0 100 1 4 42 False) \<and>
   (let s = projr (generate maxAlloc64 (fixed_source (affine_rand 3 157)) 0 3 0 100 1 4 42 False)
    in visited s = [0..3 - 1] \<and> sorted (map fst (w s)) \<and> (\<forall>b. sorted (group_of b (w s))))"
proof -
  have ok: "\<not> isl (generate maxAlloc64 (fixed_source (affine_rand 3 157)) 0 3 0 100 1 4 42 False)"
    by code_simp
  then obtain s where s: "generate maxAlloc64 (fixed_source (affine_rand 3 157)) 0 3 0 100 1 4 42 False = Inr s"
    by (cases "generate maxAlloc64 (fixed_source (affine_rand 3 157)) 0 3 0 100 1 4 42 False") auto
  from GenerateImportCSV_ascending_sorted [OF s] s ok show ?thesis by simp
qed


lemmas gen_eval = generate_def make_slice_def makeslice_ok_def gen_loop.simps gen_body_def Int63n_def
  draw_profileIDs.simps emit_rows.simps slice_to_def index_at_def
  sub64_def add64_def wrap64_def advance_def

lemma scenario_rows:
  "16 \<le> maxAlloc \<Longrightarrow>
   map_sum id (\<lambda>s. (numrows s, w s, visited s))
     (generate maxAlloc NewSource 0 3 0 100 1 2 42 False) =
     Inr (3,
          [(0, int (NewSource 42 1) mod 100), (1, int (NewSource 42 3) mod 100),
           (2, int (NewSource 42 5) mod 100)],
          [0, 1, 2])"
  by (simp add: gen_eval numeral_2_eq_2 numeral_3_eq_3 eval_nat_numeral)

lemma scenario_bytes:
  "16 \<le> maxAlloc \<Longrightarrow>
   GenerateImportCSV maxAlloc NewSource 0 3 0 100 1 2 42 False =
     Inr (3, fmt_row (0, int (NewSource 42 1) mod 100) @ fmt_row (1, int (NewSource 42 3) mod 100)
               @ fmt_row (2, int (NewSource 42 5) mod 100))"
  by (simp add: GenerateImportCSV_def gen_eval numeral_2_eq_2 numeral_3_eq_3 eval_nat_numeral)

lemma fmt_d_below_100: "0 \<le> p \<Longrightarrow> p < 100 \<Longrightarrow> fmt_d p = decimal_below_100 p"
proof -
  assume p: "0 \<le> p" "p < 100"
  show ?thesis
  proof (cases "p < 10")
    case True
    with p show ?thesis
      by (simp add: fmt_d_def decimal_below_100_def dec_nat.simps digit_char_def)
  next
    case False
    with p have "nat p div 10 < 10" "\<not> nat p < 10" by simp_all
    moreover have "nat p div 10 = nat (p div 10)" "nat p mod 10 = nat (p mod 10)"
      using p by (simp_all add: nat_div_distrib nat_mod_distrib)
    ultimately show ?thesis
      using p False
      by (simp add: fmt_d_def decimal_below_100_def dec_nat.simps [of "nat p"]
            dec_nat.simps [of "nat (p div 10)"] digit_char_def)
  qed
qed

lemma fmt_row_below_100:
  "0 \<le> p \<Longrightarrow> p < 100 \<Longrightarrow>
   fmt_row (0, p) = ''0,'' @ decimal_below_100 p @ ''\<newline>'' \<and>
   fmt_row (1, p) = ''1,'' @ decimal_below_100 p @ ''\<newline>'' \<and>
   fmt_row (2, p) = ''2,'' @ decimal_below_100 p @ ''\<newline>''"
  by (simp add: fmt_row_def fmt_d_below_100 decimal_below_100_def)

text \<open>
  Claim C8. For the arguments \<open>(0, 3, 0, 100, 1, 2, seed 42, randomOrder = false)\<close>, every
  seeded source and every runtime that can allocate the two-element scratch buffer, the
  generator returns 3 and writes exactly the three lines \<open>"0,p\n"\<close>, \<open>"1,p'\n"\<close>, \<open>"2,p''\n"\<close>,
  where the profile ids are the second, fourth and sixth draw of the stream of seed 42
  reduced modulo 100, in decimal. The bytes and the count depend on nothing else: a
  second invocation whose stream yields the same three profile ids writes the same bytes
  and returns the same count.
\<close>

theorem GenerateImportCSV_scenario_seed_42:
  assumes "16 \<le> maxAlloc"
  shows
  "GenerateImportCSV maxAlloc NewSource 0 3 0 100 1 2 42 False =
     Inr (3, ''0,'' @ decimal_below_100 (int (NewSource 42 1) mod 100) @ ''\<newline>'' @
             ''1,'' @ decimal_below_100 (int (NewSource 42 3) mod 100) @ ''\<newline>'' @
             ''2,'' @ decimal_below_100 (int (NewSource 42 5) mod 100) @ ''\<newline>'') \<and>
   lines_written
     (''0,'' @ decimal_below_100 (int (NewSource 42 1) mod 100) @ ''\<newline>'' @
      ''1,'' @ decimal_below_100 (int (NewSource 42 3) mod 100) @ ''\<newline>'' @
      ''2,'' @ decimal_below_100 (int (NewSource 42 5) mod 100) @ ''\<newline>'') = 3 \<and>
   map_sum id (\<lambda>s. (w s, visited s)) (generate maxAlloc NewSource 0 3 0 100 1 2 42 False) =
     Inr ([(0, int (NewSource 42 1) mod 100), (1, int (NewSource 42 3) mod 100),
           (2, int (NewSource 42 5) mod 100)],
          [0, 1, 2]) \<and>
   (16 \<le> maxAlloc' \<and>
    int (NewSource' 42 1) mod 100 = int (NewSource 42 1) mod 100 \<and>
    int (NewSource' 42 3) mod 100 = int (NewSource 42 3) mod 100 \<and>
    int (NewSource' 42 5) mod 100 = int (NewSource 42 5) mod 100 \<longrightarrow>
      GenerateImportCSV maxAlloc' NewSource' 0 3 0 100 1 2 42 False =
      GenerateImportCSV maxAlloc NewSource 0 3 0 100 1 2 42 False)"
proof -
  let ?p1 = "int (NewSource 42 1) mod 100"
  let ?p3 = "int (NewSource 42 3) mod 100"
  let ?p5 = "int (NewSource 42 5) mod 100"
  have r1: "0 \<le> ?p1" "?p1 < 100" and r3: "0 \<le> ?p3" "?p3 < 100" and r5: "0 \<le> ?p5" "?p5 < 100"
    by simp_all
  have bytes: "fmt_row (0, ?p1) @ fmt_row (1, ?p3) @ fmt_row (2, ?p5) =
      ''0,'' @ decimal_below_100 ?p1 @ ''\<newline>'' @ ''1,'' @ decimal_below_100 ?p3 @ ''\<newline>'' @
      ''2,'' @ decimal_below_100 ?p5 @ ''\<newline>''"
    using fmt_row_below_100 [OF r1] fmt_row_below_100 [OF r3] fmt_row_below_100 [OF r5]
    by simp
  have out: "GenerateImportCSV maxAlloc NewSource 0 3 0 100 1 2 42 False =
      Inr (3, ''0,'' @ decimal_below_100 ?p1 @ ''\<newline>'' @ ''1,'' @ decimal_below_100 ?p3 @ ''\<newline>'' @
              ''2,'' @ decimal_below_100 ?p5 @ ''\<newline>'')"
    using scenario_bytes [OF assms, of NewSource] bytes by simp
  have lines: "lines_written (fmt_row (0, ?p1) @ fmt_row (1, ?p3) @ fmt_row (2, ?p5)) = 3"
    by (simp add: lines_written_append lines_written_fmt_row)
  have rows: "map_sum id (\<lambda>s. (w s, visited s))
      (generate maxAlloc NewSource 0 3 0 100 1 2 42 False) =
      Inr ([(0, ?p1), (1, ?p3), (2, ?p5)], [0, 1, 2])"
    using scenario_rows [OF assms, of NewSource]
    by (cases "generate maxAlloc NewSource 0 3 0 100 1 2 42 False") simp_all
  have same: "GenerateImportCSV maxAlloc' NewSource' 0 3 0 100 1 2 42 False =
      GenerateImportCSV maxAlloc NewSource 0 3 0 100 1 2 42 False"
    if "16 \<le> maxAlloc'" "int (NewSource' 42 1) mod 100 = ?p1"
      "int (NewSource' 42 3) mod 100 = ?p3" "int (NewSource' 42 5) mod 100 = ?p5"
    using that scenario_bytes [OF assms, of NewSource] scenario_bytes [OF that(1), of NewSource']
    by simp
  from lines bytes have lines': "lines_written
     (''0,'' @ decimal_below_100 ?p1 @ ''\<newline>'' @ ''1,'' @ decimal_below_100 ?p3 @ ''\<newline>'' @
      ''2,'' @ decimal_below_100 ?p5 @ ''\<newline>'') = 3"
    by simp
  from out lines' rows same show ?thesis by blast
qed

theorem GenerateImportCSV_scenario_seed_42_witness:
  "GenerateImportCSV maxAlloc64 seeded_source 0 3 0 100 1 2 42 False =
     Inr (3, ''0,45\<newline>1,51\<newline>2,57\<newline>'') \<and>
   lines_written ''0,45\<newline>1,51\<newline>2,57\<newline>'' = 3 \<and>
   GenerateImportCSV 16 (fixed_source (affine_rand 103 42)) 0 3 0 100 1 2 42 False =
     Inr (3, ''0,45\<newline>1,51\<newline>2,57\<newline>'')"
proof -
  have a: "(16::int) \<le> maxAlloc64" by (simp add: maxAlloc64_def)
  from GenerateImportCSV_scenario_seed_42 [OF a, of seeded_source 16
      "fixed_source (affine_rand 103 42)"]
  show ?thesis
    by (simp add: seeded_source_def fixed_source_def affine_rand_def decimal_below_100_def)
qed

lemma gen_loop_empty:
  "maxBitmapID \<le> i \<Longrightarrow>
   gen_loop i baseBitmapID maxBitmapID baseProfileID maxProfileID minBitsPerMap maxBitsPerMap
     randomOrder bitmapIDs s = Inr s"
  by (subst gen_loop.simps) simp

lemma gen_loop_first_panics:
  "i < maxBitmapID \<Longrightarrow>
   isl (gen_body i baseBitmapID baseProfileID maxProfileID minBitsPerMap maxBitsPerMap
     randomOrder bitmapIDs s) \<Longrightarrow>
   isl (gen_loop i baseBitmapID maxBitmapID baseProfileID maxProfileID minBitsPerMap maxBitsPerMap
     randomOrder bitmapIDs s)"
  by (subst gen_loop.simps) (auto split: sum.splits)

lemma gen_body_Inr_draw:
  assumes "gen_body i baseBitmapID baseProfileID maxProfileID minBitsPerMap maxBitsPerMap
             randomOrder bitmapIDs s = Inr s'"
  shows "\<exists>v r1 buf r2. Int63n (sub64 maxBitsPerMap minBitsPerMap) (rng s) = Inr (v, r1) \<and>
           draw_profileIDs 0 (add64 v minBitsPerMap) baseProfileID maxProfileID (profileIDs s) r1
             = Inr (buf, r2)"
  using assms unfolding gen_body_def by (auto split: sum.splits prod.splits)

lemma gen_body_degenerate_bits:
  assumes "is_int64 minBitsPerMap" "is_int64 maxBitsPerMap" "0 \<le> maxBitsPerMap"
    "maxBitsPerMap \<le> minBitsPerMap"
  shows "isl (gen_body i baseBitmapID baseProfileID maxProfileID minBitsPerMap maxBitsPerMap
     randomOrder bitmapIDs s)"
proof -
  have "is_int64 (maxBitsPerMap - minBitsPerMap)"
    using assms by (simp add: is_int64_def)
  then have "sub64 maxBitsPerMap minBitsPerMap \<le> 0"
    using assms by (simp add: sub64_def wrap64_id)
  then show ?thesis
    by (auto simp: gen_body_def Int63n_def split: sum.splits)
qed

lemma gen_body_degenerate_profiles:
  assumes "is_int64 minBitsPerMap" "is_int64 maxBitsPerMap" "0 \<le> maxBitsPerMap"
    "1 \<le> minBitsPerMap" "sub64 maxProfileID baseProfileID \<le> 0"
  shows "isl (gen_body i baseBitmapID baseProfileID maxProfileID minBitsPerMap maxBitsPerMap
     randomOrder bitmapIDs s)"
proof -
  have d: "sub64 maxBitsPerMap minBitsPerMap = maxBitsPerMap - minBitsPerMap"
    using assms by (simp add: sub64_def wrap64_id is_int64_def)
  have "isl (draw_profileIDs 0 (add64 v minBitsPerMap) baseProfileID maxProfileID buf r)"
    if "0 \<le> v" "v < maxBitsPerMap - minBitsPerMap" for v buf r
  proof -
    have "is_int64 (v + minBitsPerMap)"
      using that assms by (simp add: is_int64_def)
    then have "add64 v minBitsPerMap = v + minBitsPerMap"
      by (simp add: add64_def wrap64_id)
    then have "0 < add64 v minBitsPerMap"
      using that assms by simp
    then show ?thesis
      using assms(5) by (subst draw_profileIDs.simps) (simp add: Int63n_def)
  qed
  note draw = this
  show ?thesis
  proof (cases "gen_body i baseBitmapID baseProfileID maxProfileID minBitsPerMap maxBitsPerMap
     randomOrder bitmapIDs s")
    case (Inl p)
    then show ?thesis by simp
  next
    case (Inr s')
    from gen_body_Inr_draw [OF Inr] obtain v r1 buf r2 where
      n: "Int63n (sub64 maxBitsPerMap minBitsPerMap) (rng s) = Inr (v, r1)" and
      dr: "draw_profileIDs 0 (add64 v minBitsPerMap) baseProfileID maxProfileID (profileIDs s) r1
             = Inr (buf, r2)"
      by blast
    from Int63n_Inr [OF n] d have "0 \<le> v" "v < maxBitsPerMap - minBitsPerMap" by auto
    from draw [OF this, of "profileIDs s" r1] dr show ?thesis by simp
  qed
qed

lemma GenerateImportCSV_isl:
  "isl (GenerateImportCSV maxAlloc NewSource baseBitmapID maxBitmapID baseProfileID maxProfileID
       minBitsPerMap maxBitsPerMap seed randomOrder) =
   isl (generate maxAlloc NewSource baseBitmapID maxBitmapID baseProfileID maxProfileID
       minBitsPerMap maxBitsPerMap seed randomOrder)"
  by (simp add: GenerateImportCSV_def split: sum.splits)

lemma generate_first_panics:
  assumes "baseBitmapID < maxBitmapID"
    and "\<And>bitmapIDs s. 0 \<le> maxBitsPerMap \<Longrightarrow>
           isl (gen_body baseBitmapID baseBitmapID baseProfileID maxProfileID minBitsPerMap
                  maxBitsPerMap randomOrder bitmapIDs s)"
  shows "isl (generate maxAlloc NewSource baseBitmapID maxBitmapID baseProfileID maxProfileID
       minBitsPerMap maxBitsPerMap seed randomOrder)"
  using assms
  by (auto simp: generate_def make_slice_def makeslice_ok_def intro!: gen_loop_first_panics
           split: sum.splits prod.splits if_splits)




text \<open>
  What the random-order branch does in general: \<open>Perm\<close> returns a permutation of
  \<open>0, ..., n - 1\<close>, and the bitmap ids visited are exactly its entries, in order, with no
  offset by \<open>baseBitmapID\<close>.
\<close>

lemma perm_loop_mset:
  "length m = n \<Longrightarrow> i \<le> n \<Longrightarrow> mset (take i m) = mset (map int [0..<i]) \<Longrightarrow>
   length (fst (perm_loop i n m r)) = n \<and> mset (fst (perm_loop i n m r)) = mset (map int [0..<n])"
proof (induction i n m r rule: perm_loop.induct)
  case (1 i n m r)
  show ?case
  proof (cases "i < n")
    case False
    with "1.prems" have "i = n" by simp
    with "1.prems" False show ?thesis
      by (subst perm_loop.simps, subst (2) perm_loop.simps) simp
  next
    case True
    define j where "j = r 0 mod (i + 1)"
    define m1 where "m1 = m[i := m ! j]"
    define m2 where "m2 = m1[j := int i]"
    have j: "j \<le> i" unfolding j_def by (simp add: less_Suc_eq_le [symmetric])
    have len2: "length m2 = n" using "1.prems" by (simp add: m2_def m1_def)
    have tk: "take (Suc i) m2 = ((take i m) @ [m ! j])[j := int i]"
    proof (rule nth_equalityI)
      show "length (take (Suc i) m2) = length (((take i m) @ [m ! j])[j := int i])"
        using True "1.prems" len2 by simp
    next
      fix k assume "k < length (take (Suc i) m2)"
      then have k: "k < Suc i" by simp
      then show "take (Suc i) m2 ! k = ((take i m) @ [m ! j])[j := int i] ! k"
        using True "1.prems" j
        by (auto simp: m2_def m1_def nth_list_update nth_append less_Suc_eq)
    qed
    have "mset (take (Suc i) m2) = add_mset (int i) (mset (take i m))"
    proof (cases "j = i")
      case True
      have "length (take i m) = i" using "1.prems" \<open>i < n\<close> by simp
      then have "((take i m) @ [m ! j])[i := int i] = take i m @ [int i]"
        by (simp add: list_update_append)
      with True tk show ?thesis by simp
    next
      case False
      with j have lt: "j < i" by simp
      then have jl: "j < length (take i m)" using "1.prems" True by simp
      have nth: "take i m ! j = m ! j" using lt by simp
      have "m ! j \<in># mset (take i m)"
        using jl nth by (metis nth_mem_mset)
      then show ?thesis
        using tk jl nth by (simp add: list_update_append mset_update)
    qed
    then have inv: "mset (take (i + 1) m2) = mset (map int [0..<i + 1])"
      using "1.prems" by simp
    have "length (fst (perm_loop (i + 1) n m2 (advance r))) = n \<and>
          mset (fst (perm_loop (i + 1) n m2 (advance r))) = mset (map int [0..<n])"
      using "1.IH" [OF True j_def m1_def m2_def len2 _ inv] True by simp
    then show ?thesis
      using True by (subst perm_loop.simps, subst (2) perm_loop.simps)
        (simp add: Let_def j_def m1_def m2_def)
  qed
qed

lemma Perm_mset:
  "Perm maxAlloc n r = Inr (m, r') \<Longrightarrow>
   0 \<le> n \<and> length m = nat n \<and> mset m = mset (map int [0..<nat n])"
  using perm_loop_mset [of "replicate (nat n) 0" "nat n" 0 r]
  by (auto simp: Perm_def make_slice_def makeslice_ok_def split: if_splits)

lemma gen_loop_random_visited:
  assumes "gen_loop i baseBitmapID maxBitmapID baseProfileID maxProfileID minBitsPerMap
             maxBitsPerMap True bitmapIDs s = Inr s'"
    and "baseBitmapID \<le> i"
    and "is_int64 (maxBitmapID - baseBitmapID)"
    and "int (length bitmapIDs) = maxBitmapID - baseBitmapID"
  shows "visited s' = visited s @ drop (nat (i - baseBitmapID)) bitmapIDs \<and>
         (\<forall>row\<in>set (w s'). row \<in> set (w s) \<or> fst row \<in> set bitmapIDs)"
  using assms
proof (induction i baseBitmapID maxBitmapID baseProfileID maxProfileID minBitsPerMap
         maxBitsPerMap "True" bitmapIDs s rule: gen_loop.induct)
  case (1 i baseBitmapID maxBitmapID baseProfileID maxProfileID minBitsPerMap maxBitsPerMap bitmapIDs s)
  show ?case
  proof (cases "i < maxBitmapID")
    case False
    with "1.prems" have "s' = s"
      by (subst (asm) gen_loop.simps) simp
    moreover from False "1.prems" have "drop (nat (i - baseBitmapID)) bitmapIDs = []" by simp
    ultimately show ?thesis by simp
  next
    case True
    from "1.prems"(1) True obtain s1 where
      body: "gen_body i baseBitmapID baseProfileID maxProfileID minBitsPerMap maxBitsPerMap
               True bitmapIDs s = Inr s1" and
      rest: "gen_loop (i + 1) baseBitmapID maxBitmapID baseProfileID maxProfileID minBitsPerMap
               maxBitsPerMap True bitmapIDs s1 = Inr s'"
      by (subst (asm) gen_loop.simps) (auto split: sum.splits)
    let ?k = "nat (i - baseBitmapID)"
    have "is_int64 (i - baseBitmapID)"
      using True "1.prems"(2,3) by (simp add: is_int64_def)
    then have sub: "sub64 i baseBitmapID = i - baseBitmapID"
      by (simp add: sub64_def wrap64_id)
    have k: "?k < length bitmapIDs" using True "1.prems"(2,4) by linarith
    then have idx: "index_at bitmapIDs (sub64 i baseBitmapID) = Inr (bitmapIDs ! ?k)"
      using "1.prems"(2) by (simp add: index_at_def sub)
    from gen_body_Inr [OF body] idx obtain ps where
      w1: "w s1 = w s @ map (Pair (bitmapIDs ! ?k)) ps" and
      v1: "visited s1 = visited s @ [bitmapIDs ! ?k]"
      by auto
    from "1.hyps" [OF True body rest] "1.prems"(2,3,4)
    have ih: "visited s' = visited s1 @ drop (nat (i + 1 - baseBitmapID)) bitmapIDs"
      "\<forall>row\<in>set (w s'). row \<in> set (w s1) \<or> fst row \<in> set bitmapIDs"
      by auto
    have "nat (i + 1 - baseBitmapID) = Suc ?k" using "1.prems"(2) by linarith
    then have "drop ?k bitmapIDs = bitmapIDs ! ?k # drop (nat (i + 1 - baseBitmapID)) bitmapIDs"
      using k by (simp add: Cons_nth_drop_Suc)
    with ih(1) v1 have "visited s' = visited s @ drop ?k bitmapIDs" by simp
    moreover have "\<forall>row\<in>set (w s'). row \<in> set (w s) \<or> fst row \<in> set bitmapIDs"
      using ih(2) w1 k by (fastforce simp: nth_mem)
    ultimately show ?thesis by simp
  qed
qed

lemma generate_random_order_visited:
  assumes "generate maxAlloc NewSource baseBitmapID maxBitmapID baseProfileID maxProfileID minBitsPerMap
             maxBitsPerMap seed True = Inr s"
    and "baseBitmapID < maxBitmapID"
    and "is_int64 (maxBitmapID - baseBitmapID)"
  shows "mset (visited s) = mset (map int [0..<nat (maxBitmapID - baseBitmapID)]) \<and>
         (\<forall>row\<in>set (w s). 0 \<le> fst row \<and> fst row < maxBitmapID - baseBitmapID)"
proof -
  have sub: "sub64 maxBitmapID baseBitmapID = maxBitmapID - baseBitmapID"
    using assms(3) by (simp add: sub64_def wrap64_id)
  from assms(1) obtain bitmapIDs r0 buf0 where
    p: "Perm maxAlloc (maxBitmapID - baseBitmapID) (NewSource seed) = Inr (bitmapIDs, r0)" and
    l: "gen_loop baseBitmapID baseBitmapID maxBitmapID baseProfileID maxProfileID minBitsPerMap
       maxBitsPerMap True bitmapIDs
       \<lparr> numrows = 0, profileIDs = buf0, rng = r0, w = [], visited = [] \<rparr> = Inr s"
    unfolding generate_def sub by (auto split: sum.splits prod.splits)
  from Perm_mset [OF p] have len: "int (length bitmapIDs) = maxBitmapID - baseBitmapID"
    and ms: "mset bitmapIDs = mset (map int [0..<nat (maxBitmapID - baseBitmapID)])"
    by auto
  from gen_loop_random_visited [OF l _ assms(3) len]
  have v: "visited s = bitmapIDs" and rows: "\<forall>row\<in>set (w s). fst row \<in> set bitmapIDs"
    by auto
  have "set bitmapIDs = int ` {0..<nat (maxBitmapID - baseBitmapID)}"
    using ms by (metis mset_eq_setD set_map set_upt)
  with rows have "\<forall>row\<in>set (w s). 0 \<le> fst row \<and> fst row < maxBitmapID - baseBitmapID"
    by auto
  with v ms show ?thesis by simp
qed

text \<open>
  Claim C1 at \<open>baseBitmapID = 5\<close>, \<open>maxBitmapID = 7\<close>, \<open>randomOrder = true\<close>: the bitmap ids
  visited and written are 1 and 0, the entries of a permutation of \<open>[0, 2)\<close>, not the ids
  5 and 6 of the range \<open>[5, 7)\<close>. The sibling branch and the usage text of the command
  both keep bitmap ids between \<open>baseBitmapID\<close> and \<open>maxBitmapID\<close>.
\<close>

theorem GenerateImportCSV_random_order_at_5_7:
  "map_sum id (\<lambda>s. (visited s, w s)) (generate maxAlloc64 (fixed_source (const_rand 0)) 5 7 0 100 1 2 0 True) =
     Inr ([1, 0], [(1, 0), (0, 0)])"
  by code_simp

section \<open>Properties of the constructors that copy a caller's map\<close>

lemma update_fresh: "k \<notin> fst ` set al \<Longrightarrow> AList.update k v al = al @ [(k, v)]"
  by (induction al) auto

lemma copy_loop_fresh:
  "distinct (map fst kvs) \<Longrightarrow> fst ` set acc \<inter> fst ` set kvs = {} \<Longrightarrow>
   copy_loop kvs (length h) (h @ [acc]) = h @ [acc @ kvs]"
proof (induction kvs arbitrary: acc)
  case Nil
  then show ?case by simp
next
  case (Cons kv kvs)
  obtain k v where kv: "kv = (k, v)" by (cases kv)
  from Cons.prems kv have fresh: "k \<notin> fst ` set acc" by auto
  have step: "map_assign (h @ [acc]) (length h) k v = h @ [acc @ [(k, v)]]"
    using fresh by (simp add: map_assign_def update_fresh)
  have "copy_loop kvs (length h) (h @ [acc @ [(k, v)]]) = h @ [(acc @ [(k, v)]) @ kvs]"
    using Cons.prems kv by (intro Cons.IH) auto
  with step kv show ?case by simp
qed

lemma copyArgs_append:
  "distinct (map fst (map_entries h m)) \<Longrightarrow> copyArgs h m = (length h, h @ [map_entries h m])"
  using copy_loop_fresh [of "map_entries h m" "[]" h] by (simp add: copyArgs_def)

lemma map_assign_last: "map_assign (h @ [m]) (length h) k v = h @ [AList.update k v m]"
  by (simp add: map_assign_def)

text \<open>
  Claim C9. For every store and every caller-supplied map reference, \<open>SetRowAttrs\<close> and
  \<open>SetColumnAttrs\<close> return a node whose \<open>Args\<close> is a newly allocated map, different from
  the caller's; the store afterwards is the old store, with every existing map
  unchanged, followed by the new map, which holds the caller's entries (the values
  themselves, not copies of what they refer to) with the added keys written over them.
\<close>

theorem SetAttrs_copy_caller_map:
  assumes "valid_ref h attrs" and "distinct (map fst (map_entries h attrs))"
  shows "SetRowAttrs h id' frame attrs =
           (Some (Call ''SetRowAttrs'' (Some (length h)) []),
            h @ [AList.update ''columnID'' (VStr frame)
                   (AList.update ''id'' (VUint id') (map_entries h attrs))]) \<and>
         SetColumnAttrs h id' attrs =
           (Some (Call ''SetColumnAttrs'' (Some (length h)) []),
            h @ [AList.update ''id'' (VUint id') (map_entries h attrs)]) \<and>
         attrs \<noteq> Some (length h)"
  using assms
  by (auto simp: SetRowAttrs_def SetColumnAttrs_def copyArgs_append map_assign_last valid_ref_def)

theorem SetAttrs_copy_caller_map_witness:
  "SetRowAttrs example_heap 9 ''f'' (Some 0) =
     (Some (Call ''SetRowAttrs'' (Some 2) []),
      example_heap @ [[(''color'', VStr ''red''), (''id'', VUint 9), (''tags'', VRef 1),
                       (''columnID'', VStr ''f'')]]) \<and>
   SetColumnAttrs example_heap 9 (Some 0) =
     (Some (Call ''SetColumnAttrs'' (Some 2) []),
      example_heap @ [[(''color'', VStr ''red''), (''id'', VUint 9), (''tags'', VRef 1)]])"
  using SetAttrs_copy_caller_map [of example_heap "Some 0" 9 "''f''"]
  by (simp add: example_heap_def valid_ref_def map_entries_def)

section \<open>Properties of the random query generator\<close>

lemma wrap64_mod: "wrap64 x mod 2 ^ 64 = x mod 2 ^ 64"
proof -
  have "((x + 2 ^ 63) mod 2 ^ 64 - 2 ^ 63) mod 2 ^ 64 = (x + 2 ^ 63 - 2 ^ 63) mod (2 ^ 64 :: int)"
    by (rule mod_diff_left_eq)
  then show ?thesis by (simp add: wrap64_def)
qed

lemma wrap64_cong: "a mod 2 ^ 64 = b mod 2 ^ 64 \<Longrightarrow> wrap64 a = wrap64 b"
proof -
  assume "a mod 2 ^ 64 = b mod 2 ^ 64"
  then have "(a + 2 ^ 63) mod 2 ^ 64 = (b + 2 ^ 63) mod (2 ^ 64 :: int)"
    by (metis mod_add_left_eq)
  then show ?thesis by (simp add: wrap64_def)
qed

lemma sub64_to_int64: "sub64 (to_int64 a) (to_int64 b) = wrap64 (a - b)"
  unfolding sub64_def to_int64_def
  by (rule wrap64_cong) (metis mod_diff_eq wrap64_mod)

lemma to_uint64_add64: "to_uint64 (add64 v (to_int64 a)) = (v + a) mod 2 ^ 64"
  unfolding to_uint64_def add64_def to_int64_def
  by (metis mod_add_right_eq wrap64_mod)

lemma Intn_Inr: "Intn n r = Inr (v, r') \<Longrightarrow> 0 < n \<and> 0 \<le> v \<and> v < n \<and> r' = advance r"
  by (auto simp: Intn_def split: if_splits)

lemma RandomBitmapCall_terminal:
  "depth \<le> 1 \<Longrightarrow>
   RandomBitmapCall maxAlloc q depth maxargs idmin idmax =
     (case Int63n (sub64 (to_int64 idmax) (to_int64 idmin)) (R q) of
        Inl p \<Rightarrow> Inl p
      | Inr (v, r') \<Rightarrow>
          Inr (Bitmap (to_uint64 (add64 v (to_int64 idmin)))
                 (IDToFrameFn q (to_uint64 (add64 v (to_int64 idmin)))),
               q\<lparr>R := r'\<rparr>))"
  by (subst RandomBitmapCall.simps) simp

lemma RandomBitmapCall_terminal_range:
  assumes "is_uint64 idmin" "is_uint64 idmax" "idmin < idmax" "idmax - idmin < 2 ^ 63"
    and "depth \<le> 1"
  shows "\<exists>rowID. RandomBitmapCall maxAlloc q depth maxargs idmin idmax =
            Inr (Bitmap rowID (IDToFrameFn q rowID), q\<lparr>R := advance (R q)\<rparr>) \<and>
          idmin \<le> rowID \<and> rowID < idmax"
proof -
  let ?n = "idmax - idmin"
  have "is_int64 ?n" using assms by (simp add: is_int64_def)
  then have n: "sub64 (to_int64 idmax) (to_int64 idmin) = ?n"
    by (simp add: sub64_to_int64 wrap64_id)
  let ?v = "int (R q 0) mod ?n"
  have v: "0 \<le> ?v" "?v < ?n" using assms by simp_all
  have d: "Int63n ?n (R q) = Inr (?v, advance (R q))"
    using assms by (simp add: Int63n_def)
  have lt: "?v + idmin < idmax" using v by linarith
  have "0 \<le> ?v + idmin"
    using v(1) assms(1) unfolding is_uint64_def by linarith
  moreover have "?v + idmin < 2 ^ 64"
    using lt assms(2) unfolding is_uint64_def by linarith
  ultimately have row: "to_uint64 (add64 ?v (to_int64 idmin)) = ?v + idmin"
    by (simp add: to_uint64_add64)
  show ?thesis
    using v assms(5) by (intro exI [of _ "?v + idmin"]) (simp add: RandomBitmapCall_terminal n d row)
qed

text \<open>
  Claim C5, as amended. For \<open>uint64\<close> bounds with \<open>idmin < idmax\<close> and
  \<open>idmax - idmin < 2^63\<close>, and \<open>depth \<le> 1\<close>, \<open>RandomBitmapCall\<close> returns without panicking
  a Bitmap leaf whose row id lies in \<open>[idmin, idmax)\<close> and whose frame is \<open>IDToFrameFn\<close> of
  that id.
\<close>

theorem RandomBitmapCall_terminal_bitmap:
  assumes "is_uint64 idmin" "is_uint64 idmax" "idmin < idmax" "idmax - idmin < 2 ^ 63"
    and "depth \<le> 1"
  shows "\<exists>rowID. RandomBitmapCall maxAlloc q depth maxargs idmin idmax =
            Inr (Bitmap rowID (IDToFrameFn q rowID), q\<lparr>R := advance (R q)\<rparr>) \<and>
          idmin \<le> rowID \<and> rowID < idmax"
  using RandomBitmapCall_terminal_range [OF assms] .

theorem RandomBitmapCall_terminal_bitmap_witness:
  "RandomBitmapCall maxAlloc64 example_generator 1 0 5 10 = Inr (Bitmap 6 ''fbench'', example_generator)"
proof -
  have "is_uint64 5" "is_uint64 10" "(5::int) < 10" "(10::int) - 5 < 2 ^ 63" "(1::int) \<le> 1"
    by (simp_all add: is_uint64_def)
  from RandomBitmapCall_terminal_bitmap [OF this, of maxAlloc64 example_generator 0]
  show ?thesis
    by (auto simp: example_generator_def NewQueryGenerator_def fixed_source_def advance_def
          RandomBitmapCall_terminal Int63n_def sub64_to_int64 wrap64_def to_uint64_add64 const_rand_def)
qed

text \<open>
  Claim C5 as stated fails for \<open>idmin = idmax\<close>: the draw \<open>Int63n(0)\<close> panics.
\<close>

theorem RandomBitmapCall_empty_range_panics:
  "RandomBitmapCall maxAlloc64 example_generator 1 0 7 7 = Inl (InvalidArgument ''invalid argument to Int63n'')"
  by (simp add: RandomBitmapCall_terminal Int63n_def sub64_to_int64 wrap64_def)

lemma setop_Some: "1 \<le> call \<Longrightarrow> call \<le> 3 \<Longrightarrow> setop call calls \<noteq> None"
  by (auto simp: setop_def Difference_def Intersect_def Union_def)

lemma RandomBitmapCall_terminal_Some:
  "depth \<le> 1 \<Longrightarrow> RandomBitmapCall maxAlloc q depth maxargs idmin idmax = Inr (c, q') \<Longrightarrow> c \<noteq> None"
  by (auto simp: RandomBitmapCall_terminal Bitmap_def split: sum.splits prod.splits)

text \<open>
  Claim C10. Whenever \<open>RandomBitmapCall\<close> returns, the node it returns is not \<open>nil\<close>: the
  selector drawn by \<open>Intn(4)\<close> is 1, 2 or 3 when the final switch is reached.
\<close>

theorem RandomBitmapCall_never_nil:
  assumes "RandomBitmapCall maxAlloc q depth maxargs idmin idmax = Inr (c, q')"
  shows "c \<noteq> None"
proof (cases "depth \<le> 1")
  case True
  from RandomBitmapCall_terminal_Some [OF True assms] show ?thesis .
next
  case False
  from assms False obtain call r1 where
    call: "Intn 4 (R q) = Inr (call, r1)"
    by (subst (asm) RandomBitmapCall.simps) (auto split: sum.splits)
  from Intn_Inr [OF call] have range: "0 \<le> call" "call < 4" by auto
  show ?thesis
  proof (cases "call = 0")
    case True
    with assms False call have "RandomBitmapCall maxAlloc (q\<lparr>R := r1\<rparr>) 1 0 idmin idmax = Inr (c, q')"
      by (subst (asm) RandomBitmapCall.simps) simp
    then show ?thesis by (rule RandomBitmapCall_terminal_Some [rotated]) simp
  next
    case nz: False
    with assms False call obtain calls where "c = setop call calls"
      by (subst (asm) RandomBitmapCall.simps) (auto split: sum.splits)
    with range nz show ?thesis by (simp add: setop_Some)
  qed
qed

lemmas query_eval = RandomBitmapCall.simps fill_calls.simps choose_numargs_def Intn_def Int63n_def
  make_slice_def makeslice_ok_def maxAlloc64_def setop_def sub64_def add64_def wrap64_def to_int64_def to_uint64_def

theorem RandomBitmapCall_never_nil_witness:
  "RandomBitmapCall maxAlloc64 example_generator 2 3 0 10 =
      Inr (Difference [Bitmap 1 ''fbench'', Bitmap 1 ''fbench''], example_generator) \<and>
   Difference [Bitmap 1 ''fbench'', Bitmap 1 ''fbench''] \<noteq> None"
proof -
  have e: "RandomBitmapCall maxAlloc64 example_generator 2 3 0 10 =
      Inr (Difference [Bitmap 1 ''fbench'', Bitmap 1 ''fbench''], example_generator)"
    by (simp add: query_eval example_generator_def NewQueryGenerator_def fixed_source_def
          advance_def const_rand_def numeral_2_eq_2)
  from RandomBitmapCall_never_nil [OF e] e show ?thesis by simp
qed

lemma choose_numargs_Inr:
  "choose_numargs maxargs r = Inr (n, r') \<Longrightarrow> 0 \<le> n \<and> fanout_ok maxargs (nat n)"
  by (auto simp: choose_numargs_def fanout_ok_def dest!: Intn_Inr split: if_splits sum.splits)

lemma make_slice_Inr:
  "make_slice maxAlloc elemsize n z = Inr xs \<Longrightarrow> 0 \<le> n \<and> xs = replicate (nat n) z"
  by (auto simp: make_slice_def makeslice_ok_def split: if_splits)

lemma child_ok_Bitmap: "child_ok P (Bitmap rowID frame)"
  by (simp add: child_ok_def Bitmap_def is_setop_def)

lemma RandomBitmapCall_terminal_child_ok:
  "depth \<le> 1 \<Longrightarrow> RandomBitmapCall maxAlloc q depth maxargs idmin idmax = Inr (c, q') \<Longrightarrow> child_ok P c"
  by (auto simp: RandomBitmapCall_terminal child_ok_Bitmap split: sum.splits prod.splits)

lemma child_ok_setop:
  "1 \<le> call \<Longrightarrow> call \<le> 3 \<Longrightarrow> P (length calls) \<Longrightarrow> list_all (child_ok P) calls \<Longrightarrow>
   child_ok P (setop call calls)"
  by (auto simp: setop_def Difference_def Intersect_def Union_def child_ok_def [abs_def])

lemma list_all_update: "list_all P xs \<Longrightarrow> P x \<Longrightarrow> list_all P (xs[n := x])"
  by (auto simp: list_all_iff dest: set_update_subset_insert [THEN subsetD])

lemma fanout_mutual:
  "\<forall>c q'. RandomBitmapCall maxAlloc q depth maxargs idmin idmax = Inr (c, q') \<longrightarrow>
      child_ok (fanout_ok maxargs) c"
  "\<forall>calls' q'. fill_calls maxAlloc q i numargs depth maxargs idmin idmax calls = Inr (calls', q') \<longrightarrow>
      length calls' = length calls \<and>
      (list_all (child_ok (fanout_ok maxargs)) calls \<longrightarrow>
       list_all (child_ok (fanout_ok maxargs)) calls')"
proof (induction maxAlloc q depth maxargs idmin idmax
          and maxAlloc q i numargs depth maxargs idmin idmax calls
        rule: RandomBitmapCall_fill_calls.induct)
  case (1 maxAlloc q depth maxargs idmin idmax)
  show ?case
  proof (intro allI impI)
    fix c q'
    assume run: "RandomBitmapCall maxAlloc q depth maxargs idmin idmax = Inr (c, q')"
    show "child_ok (fanout_ok maxargs) c"
    proof (cases "depth \<le> 1")
      case True
      from RandomBitmapCall_terminal_child_ok [OF True run] show ?thesis .
    next
      case False
      from run False obtain call r1 where
        call: "Intn 4 (R q) = Inr (call, r1)"
        by (subst (asm) RandomBitmapCall.simps) (auto split: sum.splits)
      from Intn_Inr [OF call] have range: "0 \<le> call" "call < 4" by auto
      show ?thesis
      proof (cases "call = 0")
        case True
        with run False call have "RandomBitmapCall maxAlloc (q\<lparr>R := r1\<rparr>) 1 0 idmin idmax = Inr (c, q')"
          by (subst (asm) RandomBitmapCall.simps) simp
        then show ?thesis by (rule RandomBitmapCall_terminal_child_ok [rotated]) simp
      next
        case nz: False
        with run False call obtain numargs r2 calls0 calls where
          n: "choose_numargs maxargs r1 = Inr (numargs, r2)" and
          m: "make_slice maxAlloc 8 numargs None = Inr calls0" and
          f: "fill_calls maxAlloc (q\<lparr>R := r2\<rparr>) 0 numargs (depth - 1) maxargs idmin idmax calls0
                = Inr (calls, q')" and
          c: "c = setop call calls"
          by (subst (asm) RandomBitmapCall.simps) (auto split: sum.splits)
        from "1.IH"(2) [OF False call refl nz n refl m] f
        have len: "length calls = length calls0" and
          ok: "list_all (child_ok (fanout_ok maxargs)) calls0 \<longrightarrow>
               list_all (child_ok (fanout_ok maxargs)) calls"
          by auto
        from make_slice_Inr [OF m] have calls0: "calls0 = replicate (nat numargs) None" by simp
        then have "list_all (child_ok (fanout_ok maxargs)) calls0"
          by (simp add: list_all_iff child_ok_def)
        with ok have all: "list_all (child_ok (fanout_ok maxargs)) calls" by simp
        from choose_numargs_Inr [OF n] len calls0 have "fanout_ok maxargs (length calls)"
          by simp
        with all range nz have "child_ok (fanout_ok maxargs) (setop call calls)"
          by (intro child_ok_setop) auto
        with c show ?thesis by simp
      qed
    qed
  qed
next
  case (2 maxAlloc q i numargs depth maxargs idmin idmax calls)
  show ?case
  proof (intro allI impI)
    fix calls' q'
    assume run: "fill_calls maxAlloc q i numargs depth maxargs idmin idmax calls = Inr (calls', q')"
    show "length calls' = length calls \<and>
      (list_all (child_ok (fanout_ok maxargs)) calls \<longrightarrow>
       list_all (child_ok (fanout_ok maxargs)) calls')"
    proof (cases "i < numargs")
      case False
      with run show ?thesis by (subst (asm) fill_calls.simps) simp
    next
      case True
      with run obtain c q1 where
        r: "RandomBitmapCall maxAlloc q depth maxargs idmin idmax = Inr (c, q1)" and
        idx: "0 \<le> i \<and> i < int (length calls)" and
        rest: "fill_calls maxAlloc q1 (i + 1) numargs depth maxargs idmin idmax (calls[nat i := c])
                 = Inr (calls', q')"
        by (subst (asm) fill_calls.simps) (auto split: sum.splits if_splits)
      from "2.IH"(1) [OF True] r have c: "child_ok (fanout_ok maxargs) c" by simp
      from "2.IH"(2) [OF True r refl idx] rest
      have "length calls' = length (calls[nat i := c])"
        "list_all (child_ok (fanout_ok maxargs)) (calls[nat i := c]) \<longrightarrow>
         list_all (child_ok (fanout_ok maxargs)) calls'"
        by auto
      with c show ?thesis by (auto intro: list_all_update)
    qed
  qed
qed

lemma advance_const_rand: "advance (const_rand c) = const_rand c"
  by (simp add: advance_def const_rand_def)

lemma RandomBitmapCall_all_zero:
  assumes "is_uint64 idmin" "is_uint64 idmax" "idmin < idmax" "idmax - idmin < 2 ^ 63"
  shows "RandomBitmapCall maxAlloc (q\<lparr>R := const_rand 0\<rparr>) depth maxargs idmin idmax =
           Inr (Bitmap idmin (IDToFrameFn q idmin), q\<lparr>R := const_rand 0\<rparr>)"
proof -
  have "is_int64 (idmax - idmin)" using assms by (simp add: is_int64_def)
  then have n: "sub64 (to_int64 idmax) (to_int64 idmin) = idmax - idmin"
    by (simp add: sub64_to_int64 wrap64_id)
  have d: "Int63n (idmax - idmin) (const_rand 0) = Inr (0, const_rand 0)"
    using assms by (simp add: Int63n_def advance_const_rand) (simp add: const_rand_def)
  have row: "to_uint64 (add64 0 (to_int64 idmin)) = idmin"
    using assms by (simp add: to_uint64_add64 is_uint64_def)
  have leaf: "RandomBitmapCall maxAlloc (q\<lparr>R := const_rand 0\<rparr>) d m idmin idmax =
           Inr (Bitmap idmin (IDToFrameFn q idmin), q\<lparr>R := const_rand 0\<rparr>)"
    if "d \<le> 1" for d m
    using that by (simp add: RandomBitmapCall_terminal n d row)
  show ?thesis
  proof (cases "depth \<le> 1")
    case True
    then show ?thesis by (rule leaf)
  next
    case False
    have call: "Intn 4 (const_rand 0) = Inr (0, const_rand 0)"
      by (simp add: Intn_def advance_const_rand) (simp add: const_rand_def)
    from False show ?thesis
      by (subst RandomBitmapCall.simps) (simp add: call leaf)
  qed
qed

lemma fill_calls_all_zero:
  assumes "is_uint64 idmin" "is_uint64 idmax" "idmin < idmax" "idmax - idmin < 2 ^ 63"
  shows "0 \<le> i \<Longrightarrow> i \<le> numargs \<Longrightarrow> int (length calls) = numargs \<Longrightarrow>
         fill_calls maxAlloc (q\<lparr>R := const_rand 0\<rparr>) i numargs depth maxargs idmin idmax calls =
           Inr (take (nat i) calls @
                  replicate (nat (numargs - i)) (Bitmap idmin (IDToFrameFn q idmin)),
                q\<lparr>R := const_rand 0\<rparr>)"
proof (induction "nat (numargs - i)" arbitrary: i calls)
  case 0
  then have "\<not> i < numargs" "nat i = length calls" by simp_all
  then show ?case using 0 by (subst fill_calls.simps) simp
next
  case (Suc n)
  let ?leaf = "Bitmap idmin (IDToFrameFn q idmin)"
  from Suc have lt: "i < numargs" by linarith
  have idx: "0 \<le> i \<and> i < int (length calls)" using lt Suc.prems by simp
  have n: "n = nat (numargs - (i + 1))" using Suc.hyps(2) by linarith
  have rest: "fill_calls maxAlloc (q\<lparr>R := const_rand 0\<rparr>) (i + 1) numargs depth maxargs idmin idmax
      (calls[nat i := ?leaf]) =
      Inr (take (nat (i + 1)) (calls[nat i := ?leaf]) @ replicate (nat (numargs - (i + 1))) ?leaf,
           q\<lparr>R := const_rand 0\<rparr>)"
    using Suc.prems lt by (intro Suc.hyps(1) [OF n]) simp_all
  have s: "nat (i + 1) = Suc (nat i)" "nat (numargs - i) = Suc (nat (numargs - (i + 1)))"
    using idx lt by linarith+
  have k: "nat i < length calls" using idx by linarith
  have "take (nat (i + 1)) (calls[nat i := ?leaf]) @ replicate (nat (numargs - (i + 1))) ?leaf =
      take (nat i) calls @ replicate (nat (numargs - i)) ?leaf"
    using k by (simp add: s take_Suc_conv_app_nth)
  with rest lt idx show ?case
    by (subst fill_calls.simps) (simp add: RandomBitmapCall_all_zero [OF assms])
qed

lemma RandomBitmapCall_numargs_rand:
  assumes "1 \<le> op" "op \<le> 3" "1 < depth" "2 < maxargs" "2 \<le> k" "k \<le> maxargs - 1"
    and "makeslice_ok maxAlloc 8 k"
    and "is_uint64 idmin" "is_uint64 idmax" "idmin < idmax" "idmax - idmin < 2 ^ 63"
  shows "RandomBitmapCall maxAlloc (q\<lparr>R := numargs_rand op k\<rparr>) depth maxargs idmin idmax =
           Inr (setop op (replicate (nat k) (Bitmap idmin (IDToFrameFn q idmin))),
                q\<lparr>R := const_rand 0\<rparr>)"
proof -
  let ?r1 = "advance (numargs_rand op k)"
  have r2: "advance ?r1 = const_rand 0"
    by (rule ext) (simp add: advance_def numargs_rand_def const_rand_def)
  have "int (nat op) mod 4 = op" using assms(1,2) by simp
  then have call: "Intn 4 (numargs_rand op k) = Inr (op, ?r1)"
    by (simp add: Intn_def numargs_rand_def)
  have "int (nat (k - 2)) mod (maxargs - 2) = k - 2"
    using assms by simp
  then have n: "choose_numargs maxargs ?r1 = Inr (k, const_rand 0)"
    using assms by (simp add: choose_numargs_def Intn_def r2) (simp add: advance_def numargs_rand_def)
  have m: "make_slice maxAlloc 8 k (None :: qcall option) = Inr (replicate (nat k) None)"
    using assms by (simp add: make_slice_def)
  have f: "fill_calls maxAlloc (q\<lparr>R := const_rand 0\<rparr>) 0 k (depth - 1) maxargs idmin idmax
             (replicate (nat k) None) =
           Inr (take (nat 0) (replicate (nat k) None) @
                  replicate (nat (k - 0)) (Bitmap idmin (IDToFrameFn q idmin)),
                q\<lparr>R := const_rand 0\<rparr>)"
    using assms by (intro fill_calls_all_zero) simp_all
  from assms(1,3) show ?thesis
    by (subst RandomBitmapCall.simps) (simp add: call n m f)
qed

lemma setop_name:
  "1 \<le> op \<Longrightarrow> op \<le> 3 \<Longrightarrow>
   setop op calls = Some (Call ([''Difference'', ''Intersect'', ''Union''] ! nat (op - 1)) [] calls)"
proof -
  assume "1 \<le> op" "op \<le> 3"
  then have "op = 1 \<or> op = 2 \<or> op = 3" by linarith
  then show ?thesis
    by (auto simp: setop_def Difference_def Intersect_def Union_def)
qed

lemma setop_is_setop:
  "1 \<le> op \<Longrightarrow> op \<le> 3 \<Longrightarrow> setop op calls = Some c \<Longrightarrow>
   is_setop (call.Name c) \<and> Children c = calls"
proof -
  assume "1 \<le> op" "op \<le> 3" and c: "setop op calls = Some c"
  then have "op = 1 \<or> op = 2 \<or> op = 3" by linarith
  with c show ?thesis
    by (auto simp: setop_def Difference_def Intersect_def Union_def is_setop_def)
qed

lemma RandomBitmapCall_root_count:
  assumes run: "RandomBitmapCall maxAlloc q depth maxargs idmin idmax = Inr (Some c, q')"
    and deep: "1 < depth" and op: "int (R q 0) mod 4 \<noteq> 0"
  shows "is_setop (call.Name c) \<and>
         int (length (Children c)) =
           (if maxargs \<le> 2 then 2 else int (R q 1) mod (maxargs - 2) + 2)"
proof -
  let ?call = "int (R q 0) mod 4"
  have call: "Intn 4 (R q) = Inr (?call, advance (R q))"
    by (simp add: Intn_def)
  have range: "1 \<le> ?call" "?call \<le> 3"
    using op pos_mod_sign [of 4 "int (R q 0)"] pos_mod_bound [of 4 "int (R q 0)"]
    by linarith+
  from run deep op call obtain numargs r2 calls0 calls where
    n: "choose_numargs maxargs (advance (R q)) = Inr (numargs, r2)" and
    m: "make_slice maxAlloc 8 numargs None = Inr calls0" and
    f: "fill_calls maxAlloc (q\<lparr>R := r2\<rparr>) 0 numargs (depth - 1) maxargs idmin idmax calls0
          = Inr (calls, q')" and
    c: "Some c = setop ?call calls"
    by (subst (asm) RandomBitmapCall.simps) (auto split: sum.splits)
  from n have num: "numargs = (if maxargs \<le> 2 then 2 else int (R q 1) mod (maxargs - 2) + 2)"
    by (auto simp: choose_numargs_def Intn_def advance_def split: if_splits)
  from make_slice_Inr [OF m] have "0 \<le> numargs" "length calls0 = nat numargs" by simp_all
  moreover from fanout_mutual(2) [of maxAlloc "q\<lparr>R := r2\<rparr>" 0 numargs "depth - 1" maxargs
      idmin idmax calls0] f
  have "length calls = length calls0" by simp
  ultimately have len: "int (length calls) = numargs" by simp
  from setop_is_setop [OF range c [symmetric]] len num show ?thesis by simp
qed

lemma setop_nodes_root:
  "setop_nodes P c \<Longrightarrow> is_setop (call.Name c) \<Longrightarrow> P (length (Children c))"
  by (cases c) simp




section \<open>Properties of the query runners\<close>

lemma measurements_Add: "measurements (Add results d resp) = measurements results @ [(d, resp)]"
  by (simp add: Add_def)

lemma Query_loop_ok:
  "n < Query.Iterations b \<Longrightarrow> cl (nat n) (Query.Index b) (Query.Query b) = (res, None) \<Longrightarrow>
   Query_loop b cl clk n results = Query_loop b cl clk (n + 1) (Add results (clk (nat n)) res)"
  by (subst Query_loop.simps) simp

lemma Query_loop_fail:
  "n < Query.Iterations b \<Longrightarrow> cl (nat n) (Query.Index b) (Query.Query b) = (res, Some e) \<Longrightarrow>
   Query_loop b cl clk n results =
     (Add results (clk (nat n)) res)
       \<lparr>err := Some (Errorf (''problem with query #'' @ fmt_d n @ '': '' @ message e))\<rparr>"
  by (subst Query_loop.simps) simp

lemma BasicQuery_loop_ok:
  "n < BasicQuery.Iterations b \<Longrightarrow>
   snd (cl (nat n) (BasicQuery.Index b)
          (render (Call (BasicQuery.Query b) [] (map (set_rowID (add64 (BaseRowID b) n)) bms)))) = None \<Longrightarrow>
   BasicQuery_loop b cl clk render n bms results =
     BasicQuery_loop b cl clk render (n + 1) (map (set_rowID (add64 (BaseRowID b) n)) bms)
       (Add results (clk (nat n)) None)"
  by (subst BasicQuery_loop.simps) (auto split: prod.splits)

lemma BasicQuery_loop_fail:
  "n < BasicQuery.Iterations b \<Longrightarrow>
   snd (cl (nat n) (BasicQuery.Index b)
          (render (Call (BasicQuery.Query b) [] (map (set_rowID (add64 (BaseRowID b) n)) bms)))) = Some e \<Longrightarrow>
   BasicQuery_loop b cl clk render n bms results = (Add results (clk (nat n)) None)\<lparr>err := Some e\<rparr>"
  by (subst BasicQuery_loop.simps) (auto split: prod.splits)




section \<open>Properties of the initialisation of the import benchmark\<close>

text \<open>
  Claim C6. \<open>Init\<close> returns the error "Need at least one host" for an empty host list, and
  the error "agent-controls: '...' is not supported" for a non-empty host list when
  \<open>AgentControls\<close> is none of "height", "width" and the empty string. Whenever
  \<open>AgentControls\<close> is none of these three, \<open>Init\<close> returns an error. In each failing case
  no file has been written and \<open>numbits\<close> and \<open>Paths\<close> are untouched: the generator has
  not run.
\<close>

theorem Import_Init_configuration_errors:
  "(hosts = [] \<longrightarrow>
      Import_Init maxAlloc NewSource tmp close_err b hosts agentNum files =
        Inr (Some (Errorf ''Need at least one host''), b, files)) \<and>
   (hosts \<noteq> [] \<and> AgentControls b \<noteq> ''height'' \<and> AgentControls b \<noteq> ''width'' \<and>
      AgentControls b \<noteq> [] \<longrightarrow>
      Import_Init maxAlloc NewSource tmp close_err b hosts agentNum files =
        Inr (Some (Errorf (''agent-controls: '' @ [CHR 0x27] @ AgentControls b @ [CHR 0x27]
                             @ '' is not supported'')),
             b\<lparr> Import.Name := ''import'', Host := hosts ! 0, Seed := add64 (Seed b) agentNum \<rparr>,
             files)) \<and>
   (AgentControls b \<noteq> ''height'' \<and> AgentControls b \<noteq> ''width'' \<and> AgentControls b \<noteq> [] \<longrightarrow>
      (\<exists>e b'. Import_Init maxAlloc NewSource tmp close_err b hosts agentNum files = Inr (Some e, b', files)
          \<and> numbits b' = numbits b \<and> Paths b' = Paths b))"
  by (auto simp: Import_Init_def agent_controls_def)

theorem Import_Init_configuration_errors_witness:
  "Import_Init maxAlloc64 (fixed_source (const_rand 0)) (Inr ''/tmp/1'') None default_Import [] 0 [] =
     Inr (Some (Errorf ''Need at least one host''), default_Import, []) \<and>
   Import_Init maxAlloc64 (fixed_source (const_rand 0)) (Inr ''/tmp/1'') None
       (default_Import\<lparr>AgentControls := ''bogus''\<rparr>) [''localhost:10101''] 2 [] =
     Inr (Some (Errorf (''agent-controls: '' @ [CHR 0x27] @ ''bogus'' @ [CHR 0x27] @ '' is not supported'')),
          default_Import\<lparr>AgentControls := ''bogus'', Import.Name := ''import'', Host := ''localhost:10101'', Seed := 2\<rparr>, [])"
  using Import_Init_configuration_errors [of "[]" maxAlloc64 "fixed_source (const_rand 0)"
      "Inr ''/tmp/1''" None default_Import 0 "[]"]
    Import_Init_configuration_errors [of "[''localhost:10101'']" maxAlloc64
      "fixed_source (const_rand 0)" "Inr ''/tmp/1''" None
      "default_Import\<lparr>AgentControls := ''bogus''\<rparr>" 2 "[]"]
  by (simp add: default_Import_def add64_def wrap64_def)

end
